theory Spec2Isabelle
  imports Main
begin

section \<open>Data model (types.go)\<close>

text \<open>
  \<^verbatim>\<open>type Status string\<close> is an open string type with five named constants; the
  model keeps it a string, so a status outside the five constants is a value too.
\<close>

type_synonym Status = string

definition StatusPending :: Status where "StatusPending = ''pending''"
definition StatusProcessing :: Status where "StatusProcessing = ''processing''"
definition StatusCompleted :: Status where "StatusCompleted = ''completed''"
definition StatusFailed :: Status where "StatusFailed = ''failed''"
definition StatusCompensated :: Status where "StatusCompensated = ''compensated''"

text \<open>
  A \<^verbatim>\<open>time.Time\<close> is an instant, here the number of nanoseconds since Go's zero
  Time (so \<^verbatim>\<open>IsZero\<close> is equality with 0); wall clock and monotonic clock are taken
  to agree. A \<^verbatim>\<open>time.Duration\<close> is an int64 count of nanoseconds.
\<close>

type_synonym Time = int
type_synonym Duration = int

definition IsZero :: "Time \<Rightarrow> bool" where
  "IsZero t = (t = 0)"

definition maxDuration :: Duration where "maxDuration = 2 ^ 63 - 1"
definition minDuration :: Duration where "minDuration = - (2 ^ 63)"

text \<open>
  \<^verbatim>\<open>t.Sub(u)\<close> of the standard library: the difference, and the maximum (or minimum)
  Duration when the difference does not fit.
\<close>

definition Sub :: "Time \<Rightarrow> Time \<Rightarrow> Duration" where
  "Sub t u = (if t - u > maxDuration then maxDuration
              else if t - u < minDuration then minDuration else t - u)"

text \<open>
  A \<^verbatim>\<open>map[string]interface{}\<close> is a partial map to an abstract value type; the nil
  map is \<open>None\<close> (reading and ranging over it give nothing, writing to it panics).
\<close>

type_synonym 'v gomap = "(string \<rightharpoonup> 'v) option"

definition entries :: "'v gomap \<Rightarrow> (string \<rightharpoonup> 'v)" where
  "entries d = (case d of None \<Rightarrow> Map.empty | Some m \<Rightarrow> m)"

record 'v Step =
  step_ID :: string
  step_SagaID :: string
  step_Name :: string
  step_Status :: Status
  step_Data :: "'v gomap"
  step_Error :: string
  step_CompensateID :: string
  step_StartedAt :: "Time option"
  step_CreatedAt :: Time
  step_UpdatedAt :: Time

record 'v Saga =
  saga_ID :: string
  saga_Name :: string
  saga_Status :: Status
  saga_Steps :: "'v Step list"
  saga_Data :: "'v gomap"
  saga_Error :: string
  saga_CreatedAt :: Time
  saga_UpdatedAt :: Time

record 'v Message =
  msg_Type :: string
  msg_SagaID :: string
  msg_StepID :: string
  msg_Data :: "'v gomap"

text \<open>
  A step handler is user code: it receives the (non-nil) execution map, may write to it,
  and returns an error or nil. The model takes it as a total function from the map to the
  map it leaves behind and the text of the error (\<open>None\<close> for nil).
\<close>

type_synonym 'v action = "(string \<rightharpoonup> 'v) \<Rightarrow> (string \<rightharpoonup> 'v) \<times> string option"

record 'v StepHandler =
  Execute :: "'v action"
  Compensate :: "'v action"

record 'v StepFunc =
  ExecFn :: "'v action option"
  CompensateFn :: "'v action option"

definition StepFunc_Execute :: "'v StepFunc \<Rightarrow> 'v action" where
  "StepFunc_Execute f data =
     (case ExecFn f of None \<Rightarrow> (data, None) | Some g \<Rightarrow> g data)"

definition StepFunc_Compensate :: "'v StepFunc \<Rightarrow> 'v action" where
  "StepFunc_Compensate f data =
     (case CompensateFn f of None \<Rightarrow> (data, None) | Some g \<Rightarrow> g data)"

section \<open>The Go heap, and the state of the process\<close>

text \<open>
  The storage keeps pointers, and the orchestrator writes through the pointers the storage
  hands out, so the objects live in an explicit heap. A \<^verbatim>\<open>*Saga\<close> is an index into
  the list of allocated Saga objects. A \<^verbatim>\<open>*Step\<close> is either the address of an
  element of a saga's step array (\<^verbatim>\<open>&saga.Steps[i]\<close>) or the address of a Step
  variable of its own. Allocation appends, so a new address is always fresh.
\<close>

datatype step_ptr = InSaga nat nat | Cell nat

record 'v world =
  saga_heap :: "'v Saga list"
  step_heap :: "'v Step list"
  m_sagas :: "string \<rightharpoonup> nat"
  m_steps :: "string \<rightharpoonup> step_ptr"
  published :: "(string \<times> 'v Message) list"
  now_src :: "nat \<Rightarrow> Time"
  now_calls :: nat
  uuid_src :: "nat \<Rightarrow> string"
  uuid_calls :: nat

text \<open>
  \<open>m_sagas\<close> and \<open>m_steps\<close> are the two maps of the MemoryStorage, \<open>published\<close> the
  calls of \<^verbatim>\<open>Publish\<close> on the MemoryPubSub in order (topic and message). The clock
  and the UUID generator are sources read one value at a time.
\<close>

definition time_Now :: "'v world \<Rightarrow> Time \<times> 'v world" where
  "time_Now w = (now_src w (now_calls w), w\<lparr>now_calls := Suc (now_calls w)\<rparr>)"

definition uuid_New :: "'v world \<Rightarrow> string \<times> 'v world" where
  "uuid_New w = (uuid_src w (uuid_calls w), w\<lparr>uuid_calls := Suc (uuid_calls w)\<rparr>)"

definition load_saga :: "'v world \<Rightarrow> nat \<Rightarrow> 'v Saga option" where
  "load_saga w a = (if a < length (saga_heap w) then Some (saga_heap w ! a) else None)"

definition store_saga :: "nat \<Rightarrow> 'v Saga \<Rightarrow> 'v world \<Rightarrow> 'v world" where
  "store_saga a sg w = w\<lparr>saga_heap := (saga_heap w)[a := sg]\<rparr>"

definition load_step :: "'v world \<Rightarrow> step_ptr \<Rightarrow> 'v Step option" where
  "load_step w p =
     (case p of
        Cell c \<Rightarrow> (if c < length (step_heap w) then Some (step_heap w ! c) else None)
      | InSaga a i \<Rightarrow>
          (case load_saga w a of
             None \<Rightarrow> None
           | Some sg \<Rightarrow> (if i < length (saga_Steps sg) then Some (saga_Steps sg ! i) else None)))"

definition store_step :: "step_ptr \<Rightarrow> 'v Step \<Rightarrow> 'v world \<Rightarrow> 'v world" where
  "store_step p s w =
     (case p of
        Cell c \<Rightarrow> w\<lparr>step_heap := (step_heap w)[c := s]\<rparr>
      | InSaga a i \<Rightarrow>
          (case load_saga w a of
             None \<Rightarrow> w
           | Some sg \<Rightarrow> store_saga a (sg\<lparr>saga_Steps := (saga_Steps sg)[i := s]\<rparr>) w))"

definition new_saga :: "'v Saga \<Rightarrow> 'v world \<Rightarrow> nat \<times> 'v world" where
  "new_saga sg w = (length (saga_heap w), w\<lparr>saga_heap := saga_heap w @ [sg]\<rparr>)"

definition new_step :: "'v Step \<Rightarrow> 'v world \<Rightarrow> step_ptr \<times> 'v world" where
  "new_step s w = (Cell (length (step_heap w)), w\<lparr>step_heap := step_heap w @ [s]\<rparr>)"

text \<open>
  A call either returns (its value and the state it leaves) or panics (in the state
  reached). Go cannot hold a pointer to an object that is not there; in the model, using
  such a pointer is a panic.
\<close>

datatype ('a, 'w) run = Done 'a 'w | Panicked 'w

definition and_then :: "('a, 'w) run \<Rightarrow> ('a \<Rightarrow> 'w \<Rightarrow> ('b, 'w) run) \<Rightarrow> ('b, 'w) run" where
  "and_then m f = (case m of Done x w \<Rightarrow> f x w | Panicked w \<Rightarrow> Panicked w)"

fun final :: "('a, 'w) run \<Rightarrow> 'w" where
  "final (Done x w) = w"
| "final (Panicked w) = w"

section \<open>The collaborator interfaces (types.go)\<close>

text \<open>
  Go's \<^verbatim>\<open>(value, error)\<close> is a sum with the error text on the left; a lone
  \<^verbatim>\<open>error\<close> is a \<open>string option\<close>, \<open>None\<close> for nil.
\<close>

record 'v Storage =
  SaveSaga :: "nat \<Rightarrow> 'v world \<Rightarrow> (string option, 'v world) run"
  GetSaga :: "string \<Rightarrow> 'v world \<Rightarrow> (string + nat, 'v world) run"
  UpdateStep :: "step_ptr \<Rightarrow> 'v world \<Rightarrow> (string option, 'v world) run"
  GetStep :: "string \<Rightarrow> 'v world \<Rightarrow> (string + step_ptr, 'v world) run"
  GetPendingSteps :: "'v world \<Rightarrow> (string + 'v Step list, 'v world) run"
  GetStuckSteps :: "Duration \<Rightarrow> 'v world \<Rightarrow> (string + 'v Step list, 'v world) run"

record 'v PubSub =
  Publish :: "string \<Rightarrow> 'v Message \<Rightarrow> 'v world \<Rightarrow> (string option, 'v world) run"

section \<open>MemoryStorage (storage.go)\<close>

text \<open>One turn of the loop of \<^verbatim>\<open>SaveSaga\<close>, on \<^verbatim>\<open>step := &saga.Steps[i]\<close>.\<close>

definition SaveSaga_step :: "nat \<Rightarrow> nat \<Rightarrow> 'v world \<Rightarrow> ('v world) option" where
  "SaveSaga_step a i w =
     (case load_step w (InSaga a i) of
        None \<Rightarrow> None
      | Some s \<Rightarrow>
          let (s1, w1) =
                (if IsZero (step_CreatedAt s)
                 then (let (t, w') = time_Now w in (s\<lparr>step_CreatedAt := t\<rparr>, w'))
                 else (s, w));
              (t2, w2) = time_Now w1;
              s2 = s1\<lparr>step_UpdatedAt := t2\<rparr>;
              w3 = store_step (InSaga a i) s2 w2
          in Some (w3\<lparr>m_steps := (m_steps w3)(step_ID s2 \<mapsto> InSaga a i)\<rparr>))"

text \<open>The loop \<^verbatim>\<open>for i := range saga.Steps\<close>: \<open>n\<close> turns are left, from index \<open>i\<close>.\<close>

fun SaveSaga_steps :: "nat \<Rightarrow> nat \<Rightarrow> nat \<Rightarrow> 'v world \<Rightarrow> (string option, 'v world) run" where
  "SaveSaga_steps a i 0 w = Done None w"
| "SaveSaga_steps a i (Suc n) w =
     (case SaveSaga_step a i w of
        None \<Rightarrow> Panicked w
      | Some w' \<Rightarrow> SaveSaga_steps a (Suc i) n w')"

definition MemoryStorage_SaveSaga :: "nat \<Rightarrow> 'v world \<Rightarrow> (string option, 'v world) run" where
  "MemoryStorage_SaveSaga a w =
     (case load_saga w a of
        None \<Rightarrow> Panicked w
      | Some sg \<Rightarrow>
          let (t1, w1) = time_Now w;
              sg1 = sg\<lparr>saga_UpdatedAt := t1\<rparr>;
              (sg2, w2) =
                (if IsZero (saga_CreatedAt sg1)
                 then (let (t, w') = time_Now w1 in (sg1\<lparr>saga_CreatedAt := t\<rparr>, w'))
                 else (sg1, w1));
              w3 = store_saga a sg2 w2;
              w4 = w3\<lparr>m_sagas := (m_sagas w3)(saga_ID sg2 \<mapsto> a)\<rparr>
          in SaveSaga_steps a 0 (length (saga_Steps sg2)) w4)"

definition MemoryStorage_GetSaga :: "string \<Rightarrow> 'v world \<Rightarrow> (string + nat, 'v world) run" where
  "MemoryStorage_GetSaga sid w =
     (case m_sagas w sid of
        None \<Rightarrow> Done (Inl ''saga not found'') w
      | Some a \<Rightarrow> Done (Inr a) w)"

text \<open>
  The loop of \<^verbatim>\<open>UpdateStep\<close> over the saga's steps: the first element with the
  step's ID is overwritten with \<^verbatim>\<open>*step\<close>, and the loop stops there.
\<close>

fun replace_first :: "'v Step \<Rightarrow> 'v Step list \<Rightarrow> 'v Step list" where
  "replace_first s [] = []"
| "replace_first s (x # xs) =
     (if step_ID x = step_ID s then s # xs else x # replace_first s xs)"

definition MemoryStorage_UpdateStep :: "step_ptr \<Rightarrow> 'v world \<Rightarrow> (string option, 'v world) run" where
  "MemoryStorage_UpdateStep p w =
     (case load_step w p of
        None \<Rightarrow> Panicked w
      | Some s0 \<Rightarrow>
          let (t1, w1) = time_Now w;
              s = s0\<lparr>step_UpdatedAt := t1\<rparr>;
              w2 = store_step p s w1;
              w3 = w2\<lparr>m_steps := (m_steps w2)(step_ID s \<mapsto> p)\<rparr>
          in (case m_sagas w3 (step_SagaID s) of
                None \<Rightarrow> Done None w3
              | Some a \<Rightarrow>
                  (case load_saga w3 a of
                     None \<Rightarrow> Panicked w3
                   | Some sg \<Rightarrow>
                       let w4 = store_saga a (sg\<lparr>saga_Steps := replace_first s (saga_Steps sg)\<rparr>) w3;
                           (t2, w5) = time_Now w4
                       in (case load_saga w5 a of
                             None \<Rightarrow> Panicked w5
                           | Some sg' \<Rightarrow> Done None (store_saga a (sg'\<lparr>saga_UpdatedAt := t2\<rparr>) w5)))))"

definition MemoryStorage_GetStep :: "string \<Rightarrow> 'v world \<Rightarrow> (string + step_ptr, 'v world) run" where
  "MemoryStorage_GetStep sid w =
     (case m_steps w sid of
        None \<Rightarrow> Done (Inl ''step not found'') w
      | Some p \<Rightarrow> Done (Inr p) w)"

text \<open>
  Ranging over a Go map visits every key once, in an order that is not specified: the
  two scans take the order \<open>ks\<close> of the visit as a parameter. A key that is not in the
  map is passed over.
\<close>

fun pending_scan :: "'v world \<Rightarrow> string list \<Rightarrow> ('v Step list) option" where
  "pending_scan w [] = Some []"
| "pending_scan w (k # ks) =
     (case m_steps w k of
        None \<Rightarrow> pending_scan w ks
      | Some p \<Rightarrow>
          (case load_step w p of
             None \<Rightarrow> None
           | Some s \<Rightarrow>
               (case pending_scan w ks of
                  None \<Rightarrow> None
                | Some rest \<Rightarrow>
                    Some (if step_Status s = StatusPending then s # rest else rest))))"

definition MemoryStorage_GetPendingSteps ::
  "('v world \<Rightarrow> string list) \<Rightarrow> 'v world \<Rightarrow> (string + 'v Step list, 'v world) run" where
  "MemoryStorage_GetPendingSteps range_steps w =
     (case pending_scan w (range_steps w) of
        None \<Rightarrow> Panicked w
      | Some pending \<Rightarrow> Done (Inr pending) w)"

definition is_stuck :: "Time \<Rightarrow> Duration \<Rightarrow> 'v Step \<Rightarrow> bool" where
  "is_stuck now timeout s =
     (if step_Status s = StatusPending then Sub now (step_UpdatedAt s) > timeout
      else if step_Status s = StatusProcessing then
        (case step_StartedAt s of None \<Rightarrow> False | Some t \<Rightarrow> Sub now t > timeout)
      else False)"

fun stuck_scan :: "Time \<Rightarrow> Duration \<Rightarrow> 'v world \<Rightarrow> string list \<Rightarrow> ('v Step list) option" where
  "stuck_scan now timeout w [] = Some []"
| "stuck_scan now timeout w (k # ks) =
     (case m_steps w k of
        None \<Rightarrow> stuck_scan now timeout w ks
      | Some p \<Rightarrow>
          (case load_step w p of
             None \<Rightarrow> None
           | Some s \<Rightarrow>
               (case stuck_scan now timeout w ks of
                  None \<Rightarrow> None
                | Some rest \<Rightarrow> Some (if is_stuck now timeout s then s # rest else rest))))"

definition MemoryStorage_GetStuckSteps ::
  "('v world \<Rightarrow> string list) \<Rightarrow> Duration \<Rightarrow> 'v world \<Rightarrow> (string + 'v Step list, 'v world) run" where
  "MemoryStorage_GetStuckSteps range_steps timeout w =
     (let (now, w1) = time_Now w
      in case stuck_scan now timeout w1 (range_steps w1) of
           None \<Rightarrow> Panicked w1
         | Some stuck \<Rightarrow> Done (Inr stuck) w1)"

definition MemoryStorage :: "('v world \<Rightarrow> string list) \<Rightarrow> 'v Storage" where
  "MemoryStorage range_steps =
     \<lparr> SaveSaga = MemoryStorage_SaveSaga,
       GetSaga = MemoryStorage_GetSaga,
       UpdateStep = MemoryStorage_UpdateStep,
       GetStep = MemoryStorage_GetStep,
       GetPendingSteps = MemoryStorage_GetPendingSteps range_steps,
       GetStuckSteps = MemoryStorage_GetStuckSteps range_steps \<rparr>"

section \<open>MemoryPubSub\<close>

text \<open>
  \<^verbatim>\<open>Publish\<close> hands the message to each subscriber of the topic on a goroutine of
  its own and returns nil in every case. The model records the call; what a subscriber
  does with the message is \<open>deliver\<close> below.
\<close>

definition MemoryPubSub_Publish ::
  "string \<Rightarrow> 'v Message \<Rightarrow> 'v world \<Rightarrow> (string option, 'v world) run" where
  "MemoryPubSub_Publish topic msg w = Done None (w\<lparr>published := published w @ [(topic, msg)]\<rparr>)"

definition MemoryPubSub :: "'v PubSub" where
  "MemoryPubSub = \<lparr> Publish = MemoryPubSub_Publish \<rparr>"

section \<open>Orchestrator (orchestrator.go)\<close>

record 'v Orchestrator =
  storage :: "'v Storage"
  pubsub :: "'v PubSub"
  handlers :: "string \<rightharpoonup> 'v StepHandler"

definition NewOrchestrator :: "'v Storage \<Rightarrow> 'v PubSub \<Rightarrow> 'v Orchestrator" where
  "NewOrchestrator st ps = \<lparr> storage = st, pubsub = ps, handlers = Map.empty \<rparr>"

definition RegisterHandler :: "'v Orchestrator \<Rightarrow> string \<Rightarrow> 'v StepHandler \<Rightarrow> 'v Orchestrator" where
  "RegisterHandler orch stepName handler = orch\<lparr>handlers := (handlers orch)(stepName \<mapsto> handler)\<rparr>"

text \<open>The loop of \<^verbatim>\<open>StartSaga\<close> that builds one Step for each step name.\<close>

fun StartSaga_steps :: "string \<Rightarrow> string list \<Rightarrow> 'v world \<Rightarrow> 'v Step list \<times> 'v world" where
  "StartSaga_steps sagaID [] w = ([], w)"
| "StartSaga_steps sagaID (stepName # rest) w =
     (let (stepID, w1) = uuid_New w;
          (t1, w2) = time_Now w1;
          (t2, w3) = time_Now w2;
          step = \<lparr> step_ID = stepID, step_SagaID = sagaID, step_Name = stepName,
                   step_Status = StatusPending, step_Data = Some Map.empty, step_Error = [],
                   step_CompensateID = [], step_StartedAt = None,
                   step_CreatedAt = t1, step_UpdatedAt = t2 \<rparr>;
          (more, w4) = StartSaga_steps sagaID rest w3
      in (step # more, w4))"

text \<open>
  Nothing else holds the new saga before \<^verbatim>\<open>SaveSaga\<close> receives it, so the object
  is allocated once its steps are appended.
\<close>

definition StartSaga ::
  "'v Orchestrator \<Rightarrow> string \<Rightarrow> string list \<Rightarrow> 'v gomap \<Rightarrow> 'v world \<Rightarrow> (string + nat, 'v world) run" where
  "StartSaga orch name steps data w =
     (let (sagaID, w1) = uuid_New w;
          (t1, w2) = time_Now w1;
          (t2, w3) = time_Now w2;
          (stps, w4) = StartSaga_steps sagaID steps w3;
          (saga, w5) = new_saga \<lparr> saga_ID = sagaID, saga_Name = name, saga_Status = StatusPending,
                                  saga_Steps = stps, saga_Data = data, saga_Error = [],
                                  saga_CreatedAt = t1, saga_UpdatedAt = t2 \<rparr> w4
      in and_then (SaveSaga (storage orch) saga w5) (\<lambda>err w6.
           case err of
             Some e \<Rightarrow> Done (Inl (''failed to save saga: '' @ e)) w6
           | None \<Rightarrow>
               (case load_saga w6 saga of
                  None \<Rightarrow> Panicked w6
                | Some sg \<Rightarrow>
                    if length (saga_Steps sg) > 0 then
                      and_then (Publish (pubsub orch) ''saga_events''
                                  \<lparr> msg_Type = ''step_execute'', msg_SagaID = sagaID,
                                    msg_StepID = step_ID (saga_Steps sg ! 0), msg_Data = data \<rparr> w6)
                        (\<lambda>_ w7. Done (Inr saga) w7)
                    else Done (Inr saga) w6)))"

text \<open>
  The scan of \<^verbatim>\<open>continueOrComplete\<close>: \<open>cur\<close> is \<^verbatim>\<open>currentIndex\<close>, \<open>i\<close> the
  index of the head of the steps still to visit.
\<close>

fun currentIndex_scan :: "int \<Rightarrow> nat \<Rightarrow> 'v Step list \<Rightarrow> int" where
  "currentIndex_scan cur i [] = cur"
| "currentIndex_scan cur i (step # rest) =
     (if step_Status step = StatusCompleted then currentIndex_scan (int i) (Suc i) rest
      else cur)"

definition continueOrComplete :: "'v Orchestrator \<Rightarrow> nat \<Rightarrow> 'v world \<Rightarrow> (unit, 'v world) run" where
  "continueOrComplete orch saga w =
     (case load_saga w saga of
        None \<Rightarrow> Panicked w
      | Some sg \<Rightarrow>
          let currentIndex = currentIndex_scan (- 1) 0 (saga_Steps sg)
          in if currentIndex + 1 < int (length (saga_Steps sg)) then
               (let nextStep = saga_Steps sg ! nat (currentIndex + 1)
                in and_then (Publish (pubsub orch) ''saga_events''
                               \<lparr> msg_Type = ''step_execute'', msg_SagaID = saga_ID sg,
                                 msg_StepID = step_ID nextStep, msg_Data = saga_Data sg \<rparr> w)
                     (\<lambda>_ w1. Done () w1))
             else
               and_then (SaveSaga (storage orch) saga
                           (store_saga saga (sg\<lparr>saga_Status := StatusCompleted\<rparr>) w))
                 (\<lambda>_ w1. Done () w1))"

text \<open>
  The loop of \<^verbatim>\<open>startCompensation\<close>, \<^verbatim>\<open>for i := len(saga.Steps) - 1; i >= 0; i--\<close>:
  the first argument is \<open>i + 1\<close>.
\<close>

fun compensation_loop :: "'v Orchestrator \<Rightarrow> nat \<Rightarrow> nat \<Rightarrow> 'v world \<Rightarrow> (unit, 'v world) run" where
  "compensation_loop orch saga 0 w = Done () w"
| "compensation_loop orch saga (Suc i) w =
     (case load_saga w saga of
        None \<Rightarrow> Panicked w
      | Some sg \<Rightarrow>
          if i < length (saga_Steps sg) then
            (let step = saga_Steps sg ! i
             in if step_Status step = StatusCompleted then
                  and_then (Publish (pubsub orch) ''saga_events''
                              \<lparr> msg_Type = ''step_compensate'', msg_SagaID = saga_ID sg,
                                msg_StepID = step_ID step, msg_Data = saga_Data sg \<rparr> w)
                    (\<lambda>_ w1. compensation_loop orch saga i w1)
                else compensation_loop orch saga i w)
          else Panicked w)"

definition startCompensation :: "'v Orchestrator \<Rightarrow> nat \<Rightarrow> 'v world \<Rightarrow> (unit, 'v world) run" where
  "startCompensation orch saga w =
     (case load_saga w saga of
        None \<Rightarrow> Panicked w
      | Some sg \<Rightarrow>
          and_then (SaveSaga (storage orch) saga
                      (store_saga saga (sg\<lparr>saga_Status := StatusFailed\<rparr>) w))
            (\<lambda>_ w1. case load_saga w1 saga of
                       None \<Rightarrow> Panicked w1
                     | Some sg1 \<Rightarrow> compensation_loop orch saga (length (saga_Steps sg1)) w1))"

text \<open>
  \<^verbatim>\<open>execData\<close>: a new map that receives the saga's data, then the step's data over
  it.
\<close>

definition merged_data :: "'v Saga \<Rightarrow> 'v Step \<Rightarrow> (string \<rightharpoonup> 'v)" where
  "merged_data sg s = entries (saga_Data sg) ++ entries (step_Data s)"

text \<open>
  \<^verbatim>\<open>ExecuteStep\<close> from the call of the handler on; \<open>step\<close> and \<open>saga\<close> are the
  pointers the storage returned.
\<close>

definition ExecuteStep_handle ::
  "'v Orchestrator \<Rightarrow> 'v StepHandler \<Rightarrow> step_ptr \<Rightarrow> nat \<Rightarrow> 'v world \<Rightarrow> (string option, 'v world) run" where
  "ExecuteStep_handle orch handler step saga w =
     (case (load_saga w saga, load_step w step) of
        (Some sg, Some s) \<Rightarrow>
          (case Execute handler (merged_data sg s) of
             (execData, Some err) \<Rightarrow>
               and_then (UpdateStep (storage orch) step
                           (store_step step (s\<lparr>step_Status := StatusFailed, step_Error := err\<rparr>) w))
                 (\<lambda>_ w1. and_then (startCompensation orch saga w1) (\<lambda>_ w2. Done None w2))
           | (execData, None) \<Rightarrow>
               and_then (UpdateStep (storage orch) step
                           (store_step step
                              (s\<lparr>step_Status := StatusCompleted, step_Data := Some execData\<rparr>) w))
                 (\<lambda>_ w1.
                    case load_saga w1 saga of
                      None \<Rightarrow> Panicked w1
                    | Some sg1 \<Rightarrow>
                        if execData = Map.empty then
                          and_then (SaveSaga (storage orch) saga w1)
                            (\<lambda>_ w2. and_then (continueOrComplete orch saga w2) (\<lambda>_ w3. Done None w3))
                        else
                          (case saga_Data sg1 of
                             None \<Rightarrow> Panicked w1
                           | Some d \<Rightarrow>
                               and_then (SaveSaga (storage orch) saga
                                           (store_saga saga (sg1\<lparr>saga_Data := Some (d ++ execData)\<rparr>) w1))
                                 (\<lambda>_ w2. and_then (continueOrComplete orch saga w2)
                                            (\<lambda>_ w3. Done None w3)))))
      | _ \<Rightarrow> Panicked w)"

definition ExecuteStep :: "'v Orchestrator \<Rightarrow> string \<Rightarrow> 'v world \<Rightarrow> (string option, 'v world) run" where
  "ExecuteStep orch stepID w =
     and_then (GetStep (storage orch) stepID w) (\<lambda>r w1.
       case r of
         Inl err \<Rightarrow> Done (Some (''failed to get step: '' @ err)) w1
       | Inr step \<Rightarrow>
           (case load_step w1 step of
              None \<Rightarrow> Panicked w1
            | Some s \<Rightarrow>
                if step_Status s \<noteq> StatusPending then Done None w1
                else
                  (case handlers orch (step_Name s) of
                     None \<Rightarrow> Done (Some (''no handler for step: '' @ step_Name s)) w1
                   | Some handler \<Rightarrow>
                       let (now, w2) = time_Now w1;
                           w3 = store_step step
                                  (s\<lparr>step_Status := StatusProcessing, step_StartedAt := Some now\<rparr>) w2
                       in and_then (UpdateStep (storage orch) step w3) (\<lambda>err w4.
                            case err of
                              Some e \<Rightarrow> Done (Some (''failed to mark step as processing: '' @ e)) w4
                            | None \<Rightarrow>
                                (case load_step w4 step of
                                   None \<Rightarrow> Panicked w4
                                 | Some s4 \<Rightarrow>
                                     and_then (GetSaga (storage orch) (step_SagaID s4) w4) (\<lambda>r5 w5.
                                       case r5 of
                                         Inl e \<Rightarrow> Done (Some (''failed to get saga: '' @ e)) w5
                                       | Inr saga \<Rightarrow> ExecuteStep_handle orch handler step saga w5))))))"

definition CompensateStep :: "'v Orchestrator \<Rightarrow> string \<Rightarrow> 'v world \<Rightarrow> (string option, 'v world) run" where
  "CompensateStep orch stepID w =
     and_then (GetStep (storage orch) stepID w) (\<lambda>r w1.
       case r of
         Inl err \<Rightarrow> Done (Some (''failed to get step: '' @ err)) w1
       | Inr step \<Rightarrow>
           (case load_step w1 step of
              None \<Rightarrow> Panicked w1
            | Some s \<Rightarrow>
                if step_Status s \<noteq> StatusCompleted then Done None w1
                else
                  (case handlers orch (step_Name s) of
                     None \<Rightarrow> Done (Some (''no handler for step: '' @ step_Name s)) w1
                   | Some handler \<Rightarrow>
                       and_then (GetSaga (storage orch) (step_SagaID s) w1) (\<lambda>r2 w2.
                         case r2 of
                           Inl e \<Rightarrow> Done (Some (''failed to get saga: '' @ e)) w2
                         | Inr saga \<Rightarrow>
                             (case (load_saga w2 saga, load_step w2 step) of
                                (Some sg, Some s2) \<Rightarrow>
                                  (case Compensate handler (merged_data sg s2) of
                                     (execData, err) \<Rightarrow>
                                       let s3 = (case err of
                                                   None \<Rightarrow> s2
                                                 | Some e \<Rightarrow> s2\<lparr>step_Error := e\<rparr>)
                                       in and_then (UpdateStep (storage orch) step
                                                      (store_step step
                                                         (s3\<lparr>step_Status := StatusCompensated\<rparr>) w2))
                                            (\<lambda>_ w3. Done None w3))
                              | _ \<Rightarrow> Panicked w2)))))"

text \<open>
  The subscription handler of \<^verbatim>\<open>StartListener\<close>: what an orchestrator does with one
  message of the topic. The error an operation returns is dropped.
\<close>

definition deliver :: "'v Orchestrator \<Rightarrow> 'v Message \<Rightarrow> 'v world \<Rightarrow> (unit, 'v world) run" where
  "deliver orch msg w =
     (if msg_Type msg = ''step_execute'' then
        and_then (ExecuteStep orch (msg_StepID msg) w) (\<lambda>_ w1. Done () w1)
      else if msg_Type msg = ''step_compensate'' then
        and_then (CompensateStep orch (msg_StepID msg) w) (\<lambda>_ w1. Done () w1)
      else Done () w)"

section \<open>RecoveryManager\<close>

record 'v RecoveryManager =
  rm_storage :: "'v Storage"
  rm_pubsub :: "'v PubSub"
  rm_interval :: Duration
  rm_stepTimeout :: Duration
  rm_running :: bool



text \<open>
  The loop of \<^verbatim>\<open>recoverStuckSteps\<close>. Each turn has its own variable \<^verbatim>\<open>step\<close>, a
  copy of the element (the loop semantics of Go 1.22); the turn that takes its address
  allocates it. The logging calls leave no trace in the state.
\<close>

fun recover_loop :: "'v RecoveryManager \<Rightarrow> 'v Step list \<Rightarrow> 'v world \<Rightarrow> (unit, 'v world) run" where
  "recover_loop r [] w = Done () w"
| "recover_loop r (step # rest) w =
     (if step_Status step = StatusProcessing then
        (let (p, w1) = new_step (step\<lparr>step_Status := StatusPending, step_StartedAt := None\<rparr>) w
         in and_then (UpdateStep (rm_storage r) p w1) (\<lambda>_ w2.
              case load_step w2 p of
                None \<Rightarrow> Panicked w2
              | Some s \<Rightarrow>
                  and_then (Publish (rm_pubsub r) ''saga_events''
                              \<lparr> msg_Type = ''step_execute'', msg_SagaID = step_SagaID s,
                                msg_StepID = step_ID s, msg_Data = None \<rparr> w2)
                    (\<lambda>_ w3. recover_loop r rest w3)))
      else
        and_then (Publish (rm_pubsub r) ''saga_events''
                    \<lparr> msg_Type = ''step_execute'', msg_SagaID = step_SagaID step,
                      msg_StepID = step_ID step, msg_Data = None \<rparr> w)
          (\<lambda>_ w1. recover_loop r rest w1))"

definition recoverStuckSteps :: "'v RecoveryManager \<Rightarrow> 'v world \<Rightarrow> (unit, 'v world) run" where
  "recoverStuckSteps r w =
     and_then (GetStuckSteps (rm_storage r) (rm_stepTimeout r) w) (\<lambda>res w1.
       case res of
         Inl err \<Rightarrow> Done () w1
       | Inr stuckSteps \<Rightarrow> recover_loop r stuckSteps w1)"

section \<open>Builder (builder.go)\<close>

record 'v builderStep =
  bs_name :: string
  bs_handler :: "'v StepHandler"

record 'v Builder =
  b_name :: string
  b_steps :: "'v builderStep list"
  b_data :: "string \<rightharpoonup> 'v"

definition NewStepHandler :: "'v action option \<Rightarrow> 'v action option \<Rightarrow> 'v StepHandler" where
  "NewStepHandler execute compensate =
     (let f = \<lparr> ExecFn = execute, CompensateFn = compensate \<rparr>
      in \<lparr> Execute = StepFunc_Execute f, Compensate = StepFunc_Compensate f \<rparr>)"

definition NewBuilder :: "string \<Rightarrow> 'v Builder" where
  "NewBuilder name = \<lparr> b_name = name, b_steps = [], b_data = Map.empty \<rparr>"

definition Builder_Step ::
  "'v Builder \<Rightarrow> string \<Rightarrow> 'v action option \<Rightarrow> 'v action option \<Rightarrow> 'v Builder" where
  "Builder_Step b name execute compensate =
     b\<lparr>b_steps := b_steps b @ [\<lparr> bs_name = name, bs_handler = NewStepHandler execute compensate \<rparr>]\<rparr>"

definition WithData :: "'v Builder \<Rightarrow> string \<Rightarrow> 'v \<Rightarrow> 'v Builder" where
  "WithData b key val = b\<lparr>b_data := (b_data b)(key \<mapsto> val)\<rparr>"

text \<open>
  The builder holds a pointer to its orchestrator and registers the handlers in it:
  \<^verbatim>\<open>Execute\<close> takes the orchestrator as part of the state and returns it updated.
\<close>

fun register_all :: "'v builderStep list \<Rightarrow> 'v Orchestrator \<Rightarrow> 'v Orchestrator" where
  "register_all [] orch = orch"
| "register_all (step # rest) orch =
     register_all rest (RegisterHandler orch (bs_name step) (bs_handler step))"

definition Builder_Execute ::
  "'v Builder \<Rightarrow> 'v Orchestrator \<Rightarrow> 'v world \<Rightarrow> 'v Orchestrator \<times> (string + nat, 'v world) run" where
  "Builder_Execute b orch w =
     (if length (b_steps b) = 0 then (orch, Done (Inl ''saga must have at least one step'') w)
      else
        (let orch' = register_all (b_steps b) orch;
             stepNames = map bs_name (b_steps b)
         in (orch', StartSaga orch' (b_name b) stepNames (Some (b_data b)) w)))"

section \<open>A small state to run the operations on\<close>

text \<open>
  One saga of three steps, the first completed, held by the storage as \<^verbatim>\<open>SaveSaga\<close>
  leaves it (each key of the step map points into the saga's step array). The
  orchestrator has a handler for \<open>a\<close> (succeeds; its compensation fails) and one for
  \<open>b\<close> (fails), and none for \<open>c\<close>.
\<close>

definition demo_step :: "string \<Rightarrow> string \<Rightarrow> Status \<Rightarrow> nat Step" where
  "demo_step sid name st =
     \<lparr> step_ID = sid, step_SagaID = ''saga1'', step_Name = name, step_Status = st,
       step_Data = Some Map.empty, step_Error = [], step_CompensateID = [],
       step_StartedAt = None, step_CreatedAt = 100, step_UpdatedAt = 100 \<rparr>"

definition demo_saga :: "nat Saga" where
  "demo_saga =
     \<lparr> saga_ID = ''saga1'', saga_Name = ''order'', saga_Status = StatusPending,
       saga_Steps = [demo_step ''s1'' ''a'' StatusCompleted, demo_step ''s2'' ''b'' StatusPending,
                     demo_step ''s3'' ''c'' StatusPending],
       saga_Data = Some Map.empty, saga_Error = [], saga_CreatedAt = 100, saga_UpdatedAt = 100 \<rparr>"

definition demo_world :: "nat world" where
  "demo_world =
     \<lparr> saga_heap = [demo_saga], step_heap = [],
       m_sagas = [''saga1'' \<mapsto> 0],
       m_steps = [''s1'' \<mapsto> InSaga 0 0, ''s2'' \<mapsto> InSaga 0 1, ''s3'' \<mapsto> InSaga 0 2],
       published = [], now_src = (\<lambda>n. 1000 + int n), now_calls = 0,
       uuid_src = (\<lambda>n. replicate (Suc n) CHR ''u''), uuid_calls = 0 \<rparr>"

definition demo_range :: "nat world \<Rightarrow> string list" where
  "demo_range w = [''s1'', ''s2'', ''s3'']"

definition ok_handler :: "nat StepHandler" where
  "ok_handler = \<lparr> Execute = (\<lambda>d. (d(''k'' \<mapsto> 1), None)),
                  Compensate = (\<lambda>d. (d, Some ''undo failed'')) \<rparr>"

definition failing_handler :: "nat StepHandler" where
  "failing_handler = \<lparr> Execute = (\<lambda>d. (d, Some ''boom'')), Compensate = (\<lambda>d. (d, None)) \<rparr>"

definition demo_orch :: "nat Orchestrator" where
  "demo_orch =
     RegisterHandler
       (RegisterHandler (NewOrchestrator (MemoryStorage demo_range) MemoryPubSub) ''a'' ok_handler)
       ''b'' failing_handler"

definition demo_execute_s2 :: "nat Message" where
  "demo_execute_s2 = \<lparr> msg_Type = ''step_execute'', msg_SagaID = ''saga1'', msg_StepID = ''s2'',
                        msg_Data = None \<rparr>"

text \<open>The same orchestrator with a handler for \<open>b\<close> that succeeds.\<close>

definition demo_orch_ok :: "nat Orchestrator" where
  "demo_orch_ok = RegisterHandler demo_orch ''b'' ok_handler"

section \<open>Words of the claims\<close>

text \<open>
  The steps the storage holds under the keys \<open>ks\<close>, in that order; \<open>steps_loadable\<close>
  says that every pointer in the step map points to a step (in Go it cannot be otherwise).
\<close>

definition stored_steps :: "'v world \<Rightarrow> string list \<Rightarrow> 'v Step list" where
  "stored_steps w ks =
     List.map_filter (\<lambda>k. case m_steps w k of None \<Rightarrow> None | Some p \<Rightarrow> load_step w p) ks"

definition steps_loadable :: "'v world \<Rightarrow> bool" where
  "steps_loadable w = (\<forall>k p. m_steps w k = Some p \<longrightarrow> load_step w p \<noteq> None)"

text \<open>
  "Pending with \<open>updated_at\<close> strictly older than now minus timeout, or Processing with
  \<open>started_at\<close> non-null and strictly older than now minus timeout", on exact instants.
\<close>

definition older_than :: "Time \<Rightarrow> Duration \<Rightarrow> 'v Step \<Rightarrow> bool" where
  "older_than now timeout s =
     ((step_Status s = StatusPending \<and> step_UpdatedAt s < now - timeout) \<or>
      (step_Status s = StatusProcessing \<and>
       (\<exists>t. step_StartedAt s = Some t \<and> t < now - timeout)))"

text \<open>
  A storage that holds one Processing step whose \<open>started_at\<close> is the zero Time, read
  in the year 2026 (about 6.39e19 ns after the zero Time).
\<close>

definition epoch_2026 :: Time where "epoch_2026 = 63900000000000000000"

definition old_step :: "nat Step" where
  "old_step = (demo_step ''s1'' ''a'' StatusProcessing)\<lparr>step_StartedAt := Some 0\<rparr>"

definition old_world :: "nat world" where
  "old_world =
     \<lparr> saga_heap = [], step_heap = [old_step], m_sagas = Map.empty,
       m_steps = [''s1'' \<mapsto> Cell 0], published = [], now_src = (\<lambda>n. epoch_2026), now_calls = 0,
       uuid_src = (\<lambda>n. []), uuid_calls = 0 \<rparr>"

definition old_range :: "nat world \<Rightarrow> string list" where
  "old_range w = [''s1'']"

text \<open>
  The storage stamps what it saves with the time of the clock. \<open>untimed\<close> forgets the
  \<open>created_at\<close> and \<open>updated_at\<close> stamps and the number of clock readings, so that
  the effect of an operation can be stated whatever the clock says.
\<close>

definition strip_step :: "'v Step \<Rightarrow> 'v Step" where
  "strip_step s = s\<lparr>step_CreatedAt := 0, step_UpdatedAt := 0\<rparr>"

definition strip_saga :: "'v Saga \<Rightarrow> 'v Saga" where
  "strip_saga sg = sg\<lparr>saga_CreatedAt := 0, saga_UpdatedAt := 0,
                      saga_Steps := map strip_step (saga_Steps sg)\<rparr>"

definition untimed :: "'v world \<Rightarrow> 'v world" where
  "untimed w = w\<lparr>saga_heap := map strip_saga (saga_heap w),
                  step_heap := map strip_step (step_heap w), now_calls := 0\<rparr>"

text \<open>
  What the loop of \<^verbatim>\<open>SaveSaga\<close> does to the step map, given the IDs of the saga's
  steps from index \<open>i\<close> on; and what \<^verbatim>\<open>UpdateStep\<close> does to the saga's step array.
\<close>

fun register_ids :: "nat \<Rightarrow> nat \<Rightarrow> string list \<Rightarrow> (string \<rightharpoonup> step_ptr) \<Rightarrow> (string \<rightharpoonup> step_ptr)" where
  "register_ids a i [] m = m"
| "register_ids a i (k # ks) m = register_ids a (Suc i) ks (m(k \<mapsto> InSaga a i))"

definition put_in_saga :: "'v Step \<Rightarrow> nat \<Rightarrow> 'v world \<Rightarrow> 'v world" where
  "put_in_saga s a w =
     (case load_saga w a of
        None \<Rightarrow> w
      | Some sg \<Rightarrow> store_saga a (sg\<lparr>saga_Steps := replace_first s (saga_Steps sg)\<rparr>) w)"

text \<open>
  The length of the maximal prefix of the steps in which every step is Completed; the last
  index of that prefix is one less (and -1 when step 0 is not Completed).
\<close>

definition completed_prefix :: "'v Step list \<Rightarrow> nat" where
  "completed_prefix steps = length (takeWhile (\<lambda>s. step_Status s = StatusCompleted) steps)"

text \<open>The saga of the small state once its three steps are Completed.\<close>

definition done_world :: "nat world" where
  "done_world =
     demo_world\<lparr>saga_heap :=
       [demo_saga\<lparr>saga_Steps := [demo_step ''s1'' ''a'' StatusCompleted,
                                     demo_step ''s2'' ''b'' StatusCompleted,
                                     demo_step ''s3'' ''c'' StatusCompleted]\<rparr>]\<rparr>"

text \<open>What a call returned, if it did.\<close>

fun returned :: "('a, 'w) run \<Rightarrow> 'a option" where
  "returned (Done x w) = Some x"
| "returned (Panicked w) = None"

text \<open>
  The step \<^verbatim>\<open>StartSaga\<close> builds for a step name, without its time stamps, and the
  steps for a list of names, the IDs read from the generator \<open>src\<close> from position \<open>n\<close> on.
\<close>

definition fresh_step :: "string \<Rightarrow> string \<Rightarrow> string \<Rightarrow> 'v Step" where
  "fresh_step sagaID stepID name =
     \<lparr> step_ID = stepID, step_SagaID = sagaID, step_Name = name, step_Status = StatusPending,
       step_Data = Some Map.empty, step_Error = [], step_CompensateID = [],
       step_StartedAt = None, step_CreatedAt = 0, step_UpdatedAt = 0 \<rparr>"

fun fresh_steps :: "string \<Rightarrow> (nat \<Rightarrow> string) \<Rightarrow> nat \<Rightarrow> string list \<Rightarrow> 'v Step list" where
  "fresh_steps sagaID src n [] = []"
| "fresh_steps sagaID src n (name # rest) =
     fresh_step sagaID (src n) name # fresh_steps sagaID src (Suc n) rest"

text \<open>
  \<^verbatim>\<open>StartSaga\<close> up to the call of \<^verbatim>\<open>SaveSaga\<close>: the pointer to the new saga and
  the state in which it is handed to the storage.
\<close>

definition saga_to_save :: "string \<Rightarrow> string list \<Rightarrow> 'v gomap \<Rightarrow> 'v world \<Rightarrow> nat \<times> 'v world" where
  "saga_to_save name steps data w =
     (let (sagaID, w1) = uuid_New w;
          (t1, w2) = time_Now w1;
          (t2, w3) = time_Now w2;
          (stps, w4) = StartSaga_steps sagaID steps w3
      in new_saga \<lparr> saga_ID = sagaID, saga_Name = name, saga_Status = StatusPending,
                     saga_Steps = stps, saga_Data = data, saga_Error = [],
                     saga_CreatedAt = t1, saga_UpdatedAt = t2 \<rparr> w4)"

text \<open>A storage whose \<^verbatim>\<open>SaveSaga\<close> fails, and an orchestrator on it.\<close>

definition broken_storage :: "nat Storage" where
  "broken_storage = (MemoryStorage demo_range)\<lparr>SaveSaga := (\<lambda>saga w. Done (Some ''disk full'') w)\<rparr>"

definition broken_orch :: "nat Orchestrator" where
  "broken_orch = NewOrchestrator broken_storage MemoryPubSub"

text \<open>
  The \<^verbatim>\<open>step_compensate\<close> message \<^verbatim>\<open>startCompensation\<close> publishes for a step of a
  saga, and the Completed steps of a list.
\<close>

definition compensate_msg :: "'v Saga \<Rightarrow> 'v Step \<Rightarrow> string \<times> 'v Message" where
  "compensate_msg sg st =
     (''saga_events'',
      \<lparr> msg_Type = ''step_compensate'', msg_SagaID = saga_ID sg, msg_StepID = step_ID st,
        msg_Data = saga_Data sg \<rparr>)"


text \<open>Every pointer in the saga map points to a saga (in Go it cannot be otherwise).\<close>

definition sagas_loadable :: "'v world \<Rightarrow> bool" where
  "sagas_loadable w = (\<forall>k a. m_sagas w k = Some a \<longrightarrow> load_saga w a \<noteq> None)"













text \<open>The error fields of the sagas in the heap, in the order of allocation.\<close>

definition saga_errors :: "'v world \<Rightarrow> string list" where
  "saga_errors w = map saga_Error (saga_heap w)"

text \<open>
  One operation of an orchestrator or of a recovery manager on the MemoryStorage and the
  MemoryPubSub, from the state before to the state it leaves (also when it panics); and
  the states a process reaches by such operations from a storage without sagas.
\<close>

inductive orch_step :: "'v world \<Rightarrow> 'v world \<Rightarrow> bool" where
  start: "storage orch = MemoryStorage rs \<Longrightarrow> pubsub orch = MemoryPubSub \<Longrightarrow>
          orch_step w (final (StartSaga orch name steps data w))"
| build: "storage orch = MemoryStorage rs \<Longrightarrow> pubsub orch = MemoryPubSub \<Longrightarrow>
          orch_step w (final (snd (Builder_Execute b orch w)))"
| execute: "storage orch = MemoryStorage rs \<Longrightarrow> pubsub orch = MemoryPubSub \<Longrightarrow>
            orch_step w (final (ExecuteStep orch stepID w))"
| compensate: "storage orch = MemoryStorage rs \<Longrightarrow> pubsub orch = MemoryPubSub \<Longrightarrow>
               orch_step w (final (CompensateStep orch stepID w))"
| message: "storage orch = MemoryStorage rs \<Longrightarrow> pubsub orch = MemoryPubSub \<Longrightarrow>
            orch_step w (final (deliver orch msg w))"
| recover: "rm_storage r = MemoryStorage rs \<Longrightarrow> rm_pubsub r = MemoryPubSub \<Longrightarrow>
            orch_step w (final (recoverStuckSteps r w))"

inductive reachable :: "'v world \<Rightarrow> bool" where
  init: "saga_heap w = [] \<Longrightarrow> step_heap w = [] \<Longrightarrow> m_sagas w = Map.empty \<Longrightarrow>
         m_steps w = Map.empty \<Longrightarrow> published w = [] \<Longrightarrow> reachable w"
| step: "reachable w \<Longrightarrow> orch_step w w' \<Longrightarrow> reachable w'"

text \<open>A process that has done nothing yet.\<close>

definition empty_world :: "nat world" where
  "empty_world =
     \<lparr> saga_heap = [], step_heap = [], m_sagas = Map.empty, m_steps = Map.empty,
       published = [], now_src = (\<lambda>n. 1000 + int n), now_calls = 0,
       uuid_src = (\<lambda>n. replicate (Suc n) CHR ''u''), uuid_calls = 0 \<rparr>"

text \<open>
  A saga of one step started in that process, and the process after the step's handler has
  failed.
\<close>

definition started_world :: "nat world" where
  "started_world = final (StartSaga demo_orch ''order'' [''b''] None empty_world)"

definition failed_world :: "nat world" where
  "failed_world = final (ExecuteStep demo_orch ''uu'' started_world)"

section \<open>Basic facts\<close>

lemmas Status_defs =
  StatusPending_def StatusProcessing_def StatusCompleted_def StatusFailed_def
  StatusCompensated_def

lemmas demo_defs =
  demo_step_def demo_saga_def demo_world_def demo_range_def demo_orch_def ok_handler_def
  failing_handler_def NewOrchestrator_def RegisterHandler_def

lemma and_then_Done [simp]: "and_then (Done x w) f = f x w"
  by (simp add: and_then_def)

lemma and_then_Panicked [simp]: "and_then (Panicked w) f = Panicked w"
  by (simp add: and_then_def)

lemma MemoryStorage_sel [simp]:
  "SaveSaga (MemoryStorage rs) = MemoryStorage_SaveSaga"
  "GetSaga (MemoryStorage rs) = MemoryStorage_GetSaga"
  "UpdateStep (MemoryStorage rs) = MemoryStorage_UpdateStep"
  "GetStep (MemoryStorage rs) = MemoryStorage_GetStep"
  "GetPendingSteps (MemoryStorage rs) = MemoryStorage_GetPendingSteps rs"
  "GetStuckSteps (MemoryStorage rs) = MemoryStorage_GetStuckSteps rs"
  by (simp_all add: MemoryStorage_def)

lemma MemoryPubSub_sel [simp]: "Publish MemoryPubSub = MemoryPubSub_Publish"
  by (simp add: MemoryPubSub_def)

lemma GetStep_found:
  "m_steps w stepID = Some p \<Longrightarrow> MemoryStorage_GetStep stepID w = Done (Inr p) w"
  by (simp add: MemoryStorage_GetStep_def)


lemma demo_load_step:
  "load_step demo_world (InSaga 0 0) = Some (demo_step ''s1'' ''a'' StatusCompleted)"
  "load_step demo_world (InSaga 0 (Suc 0)) = Some (demo_step ''s2'' ''b'' StatusPending)"
  "load_step demo_world (InSaga 0 2) = Some (demo_step ''s3'' ''c'' StatusPending)"
  by (simp_all add: load_step_def load_saga_def demo_defs)

lemmas eval_defs =
  ExecuteStep_def ExecuteStep_handle_def CompensateStep_def startCompensation_def
  continueOrComplete_def deliver_def
  MemoryStorage_GetStep_def MemoryStorage_GetSaga_def MemoryStorage_UpdateStep_def
  MemoryStorage_SaveSaga_def SaveSaga_step_def MemoryPubSub_Publish_def
  time_Now_def uuid_New_def store_step_def store_saga_def load_step_def load_saga_def
  new_saga_def new_step_def merged_data_def entries_def IsZero_def

lemma demo_storage:
  "storage demo_orch = MemoryStorage demo_range" "storage demo_orch_ok = MemoryStorage demo_range"
  "pubsub demo_orch = MemoryPubSub" "pubsub demo_orch_ok = MemoryPubSub"
  by (simp_all add: demo_defs demo_orch_ok_def)

lemma demo_first_delivery:
  "\<exists>w1. deliver demo_orch_ok demo_execute_s2 demo_world = Done () w1 \<and>
        m_steps w1 ''s2'' = Some (InSaga 0 1) \<and>
        map_option step_Status (load_step w1 (InSaga 0 1)) = Some StatusCompleted \<and>
        map (msg_StepID \<circ> snd) (published w1) = [''s3'']"
  by (simp add: eval_defs demo_defs demo_orch_ok_def demo_execute_s2_def Status_defs numeral_2_eq_2)

lemma load_saga_frame [simp]:
  "load_saga (w\<lparr>now_calls := n\<rparr>) = load_saga w"
  "load_saga (w\<lparr>uuid_calls := n\<rparr>) = load_saga w"
  "load_saga (w\<lparr>published := ms\<rparr>) = load_saga w"
  "load_saga (w\<lparr>m_steps := mp\<rparr>) = load_saga w"
  "load_saga (w\<lparr>m_sagas := mg\<rparr>) = load_saga w"
  "load_saga (w\<lparr>step_heap := sh\<rparr>) = load_saga w"
  by (simp_all add: load_saga_def fun_eq_iff)

lemma load_step_frame [simp]:
  "load_step (w\<lparr>now_calls := n\<rparr>) = load_step w"
  "load_step (w\<lparr>uuid_calls := n\<rparr>) = load_step w"
  "load_step (w\<lparr>published := ms\<rparr>) = load_step w"
  "load_step (w\<lparr>m_steps := mp\<rparr>) = load_step w"
  "load_step (w\<lparr>m_sagas := mg\<rparr>) = load_step w"
  by (simp_all add: load_step_def fun_eq_iff split: step_ptr.splits)

lemma is_stuck_older_than:
  assumes "minDuration \<le> timeout" "timeout < maxDuration"
  shows "is_stuck now timeout s = older_than now timeout s"
  using assms
  by (auto simp add: is_stuck_def older_than_def Sub_def Status_defs split: option.splits)

lemma stuck_scan_filter:
  assumes "steps_loadable w"
  shows "stuck_scan now timeout w ks = Some (filter (is_stuck now timeout) (stored_steps w ks))"
proof (induction ks)
  case Nil
  show ?case by (simp add: stored_steps_def)
next
  case (Cons k ks)
  show ?case
  proof (cases "m_steps w k")
    case None
    with Cons show ?thesis by (simp add: stored_steps_def)
  next
    case (Some p)
    with assms obtain s where "load_step w p = Some s"
      by (auto simp add: steps_loadable_def)
    with Some Cons show ?thesis by (simp add: stored_steps_def)
  qed
qed

lemma set_stored_steps:
  assumes "set ks = dom (m_steps w)"
  shows "set (stored_steps w ks) = {s. \<exists>k p. m_steps w k = Some p \<and> load_step w p = Some s}"
proof -
  have "set (stored_steps w ks) =
      {s. \<exists>k p. k \<in> set ks \<and> m_steps w k = Some p \<and> load_step w p = Some s}" for ks
    by (induction ks)
      (auto simp add: stored_steps_def split: option.splits)
  with assms show ?thesis by auto
qed

lemma strip_step_sel [simp]:
  "step_ID (strip_step s) = step_ID s" "step_SagaID (strip_step s) = step_SagaID s"
  "step_Name (strip_step s) = step_Name s" "step_Status (strip_step s) = step_Status s"
  "step_Data (strip_step s) = step_Data s" "step_Error (strip_step s) = step_Error s"
  "step_StartedAt (strip_step s) = step_StartedAt s"
  "step_CompensateID (strip_step s) = step_CompensateID s"
  by (simp_all add: strip_step_def)

lemma strip_step_upd [simp]:
  "strip_step (s\<lparr>step_UpdatedAt := t\<rparr>) = strip_step s"
  "strip_step (s\<lparr>step_CreatedAt := t\<rparr>) = strip_step s"
  "strip_step (s\<lparr>step_Status := st\<rparr>) = (strip_step s)\<lparr>step_Status := st\<rparr>"
  "strip_step (s\<lparr>step_Error := e\<rparr>) = (strip_step s)\<lparr>step_Error := e\<rparr>"
  "strip_step (s\<lparr>step_Data := d\<rparr>) = (strip_step s)\<lparr>step_Data := d\<rparr>"
  "strip_step (s\<lparr>step_StartedAt := st'\<rparr>) = (strip_step s)\<lparr>step_StartedAt := st'\<rparr>"
  "strip_step (strip_step s) = strip_step s"
  by (simp_all add: strip_step_def)

lemma strip_saga_sel [simp]:
  "saga_ID (strip_saga sg) = saga_ID sg" "saga_Name (strip_saga sg) = saga_Name sg"
  "saga_Status (strip_saga sg) = saga_Status sg" "saga_Data (strip_saga sg) = saga_Data sg"
  "saga_Error (strip_saga sg) = saga_Error sg"
  "saga_Steps (strip_saga sg) = map strip_step (saga_Steps sg)"
  by (simp_all add: strip_saga_def)

lemma strip_saga_upd [simp]:
  "strip_saga (sg\<lparr>saga_UpdatedAt := t\<rparr>) = strip_saga sg"
  "strip_saga (sg\<lparr>saga_CreatedAt := t\<rparr>) = strip_saga sg"
  "strip_saga (sg\<lparr>saga_Status := st\<rparr>) = (strip_saga sg)\<lparr>saga_Status := st\<rparr>"
  "strip_saga (sg\<lparr>saga_Data := d\<rparr>) = (strip_saga sg)\<lparr>saga_Data := d\<rparr>"
  "strip_saga (sg\<lparr>saga_Steps := xs\<rparr>) = (strip_saga sg)\<lparr>saga_Steps := map strip_step xs\<rparr>"
  "strip_saga (strip_saga sg) = strip_saga sg"
  by (simp_all add: strip_saga_def)

lemma untimed_sel [simp]:
  "m_steps (untimed w) = m_steps w" "m_sagas (untimed w) = m_sagas w"
  "published (untimed w) = published w" "now_src (untimed w) = now_src w"
  "uuid_src (untimed w) = uuid_src w" "uuid_calls (untimed w) = uuid_calls w"
  "saga_heap (untimed w) = map strip_saga (saga_heap w)"
  "step_heap (untimed w) = map strip_step (step_heap w)"
  by (simp_all add: untimed_def)

lemma untimed_upd [simp]:
  "untimed (w\<lparr>m_steps := mp\<rparr>) = (untimed w)\<lparr>m_steps := mp\<rparr>"
  "untimed (w\<lparr>m_sagas := mg\<rparr>) = (untimed w)\<lparr>m_sagas := mg\<rparr>"
  "untimed (w\<lparr>published := ms\<rparr>) = (untimed w)\<lparr>published := ms\<rparr>"
  "untimed (w\<lparr>uuid_calls := n\<rparr>) = (untimed w)\<lparr>uuid_calls := n\<rparr>"
  "untimed (w\<lparr>now_calls := n\<rparr>) = untimed w"
  "untimed (untimed w) = untimed w"
  by (simp_all add: untimed_def)

lemma load_saga_untimed [simp]:
  "load_saga (untimed w) a = map_option strip_saga (load_saga w a)"
  by (simp add: load_saga_def)

lemma load_step_untimed [simp]:
  "load_step (untimed w) p = map_option strip_step (load_step w p)"
  by (cases p) (auto simp add: load_step_def split: option.splits)

lemma untimed_store_saga [simp]:
  "untimed (store_saga a sg w) = store_saga a (strip_saga sg) (untimed w)"
  by (simp add: store_saga_def untimed_def map_update)

lemma untimed_store_step [simp]:
  "untimed (store_step p s w) = store_step p (strip_step s) (untimed w)"
  by (cases p) (auto simp add: store_step_def map_update untimed_def store_saga_def load_saga_def)

lemma store_saga_same:
  "load_saga w a = Some sg \<Longrightarrow> store_saga a sg w = w"
  by (auto simp add: load_saga_def store_saga_def split: if_splits)

lemma store_step_same:
  "load_step w p = Some s \<Longrightarrow> store_step p s w = w"
  by (cases p)
    (auto simp add: load_step_def store_step_def store_saga_same split: if_splits option.splits)

lemma load_saga_store_saga:
  "load_saga (store_saga a sg w) b =
     (if b = a \<and> a < length (saga_heap w) then Some sg else load_saga w b)"
  by (simp add: load_saga_def store_saga_def)

lemma strip_replace_first:
  "map strip_step (replace_first s xs) = replace_first (strip_step s) (map strip_step xs)"
  by (induction xs) simp_all

lemma untimed_put_in_saga [simp]:
  "untimed (put_in_saga s a w) = put_in_saga (strip_step s) a (untimed w)"
  by (simp add: put_in_saga_def strip_replace_first split: option.splits)

lemma load_saga_untimedD:
  "load_saga (untimed w) a = Some x \<Longrightarrow> \<exists>sg. load_saga w a = Some sg \<and> strip_saga sg = x"
  by auto


lemma load_saga_SomeD: "load_saga w a = Some sg \<Longrightarrow> a < length (saga_heap w)"
  by (simp add: load_saga_def split: if_splits)

lemma store_step_sel [simp]:
  "m_steps (store_step p s w) = m_steps w" "m_sagas (store_step p s w) = m_sagas w"
  "now_calls (store_step p s w) = now_calls w" "now_src (store_step p s w) = now_src w"
  "published (store_step p s w) = published w" "uuid_calls (store_step p s w) = uuid_calls w"
  "uuid_src (store_step p s w) = uuid_src w"
  by (cases p; simp add: store_step_def store_saga_def split: option.splits)+

lemma store_saga_sel [simp]:
  "m_steps (store_saga a sg w) = m_steps w" "m_sagas (store_saga a sg w) = m_sagas w"
  "now_calls (store_saga a sg w) = now_calls w" "now_src (store_saga a sg w) = now_src w"
  "published (store_saga a sg w) = published w" "uuid_calls (store_saga a sg w) = uuid_calls w"
  "uuid_src (store_saga a sg w) = uuid_src w" "step_heap (store_saga a sg w) = step_heap w"
  by (simp_all add: store_saga_def)


lemma strip_saga_eqD:
  assumes "strip_saga sg' = strip_saga sg"
  shows "map strip_step (saga_Steps sg') = map strip_step (saga_Steps sg)"
    and "map step_ID (saga_Steps sg') = map step_ID (saga_Steps sg)"
    and "length (saga_Steps sg') = length (saga_Steps sg)"
    and "saga_ID sg' = saga_ID sg" and "saga_Status sg' = saga_Status sg"
    and "saga_Data sg' = saga_Data sg" and "saga_Error sg' = saga_Error sg"
    and "saga_Name sg' = saga_Name sg"
proof -
  show m: "map strip_step (saga_Steps sg') = map strip_step (saga_Steps sg)"
    using assms by (metis strip_saga_sel(6))
  have "map step_ID (map strip_step (saga_Steps sg')) = map step_ID (map strip_step (saga_Steps sg))"
    using m by simp
  then show "map step_ID (saga_Steps sg') = map step_ID (saga_Steps sg)"
    by (simp add: comp_def)
  show "length (saga_Steps sg') = length (saga_Steps sg)"
    using m by (metis length_map)
  show "saga_ID sg' = saga_ID sg" using assms by (metis strip_saga_sel(1))
  show "saga_Status sg' = saga_Status sg" using assms by (metis strip_saga_sel(3))
  show "saga_Data sg' = saga_Data sg" using assms by (metis strip_saga_sel(4))
  show "saga_Error sg' = saga_Error sg" using assms by (metis strip_saga_sel(5))
  show "saga_Name sg' = saga_Name sg" using assms by (metis strip_saga_sel(2))
qed

lemma store_step_strip_same:
  "load_step w p = Some s \<Longrightarrow> strip_step s' = strip_step s \<Longrightarrow>
   store_step p (strip_step s') (untimed w) = untimed w"
  by (simp add: store_step_same)

lemma SaveSaga_step_effect:
  assumes sg: "load_saga w a = Some sg" and i: "i < length (saga_Steps sg)"
  shows "\<exists>w'. SaveSaga_step a i w = Some w' \<and>
           untimed w' = (untimed w)\<lparr>m_steps := (m_steps w)(step_ID (saga_Steps sg ! i) \<mapsto> InSaga a i)\<rparr>"
proof -
  let ?s = "saga_Steps sg ! i"
  have l: "load_step w (InSaga a i) = Some ?s"
    using sg i by (simp add: load_step_def)
  show ?thesis
  proof (cases "IsZero (step_CreatedAt ?s)")
    case True
    then show ?thesis
      using l by (simp add: SaveSaga_step_def time_Now_def store_step_strip_same [OF l])
  next
    case False
    then show ?thesis
      using l by (simp add: SaveSaga_step_def time_Now_def store_step_strip_same [OF l])
  qed
qed

lemma SaveSaga_steps_effect:
  assumes "load_saga w a = Some sg" and "i + n = length (saga_Steps sg)"
  shows "\<exists>w'. SaveSaga_steps a i n w = Done None w' \<and>
           untimed w' = (untimed w)\<lparr>m_steps :=
              register_ids a i (drop i (map step_ID (saga_Steps sg))) (m_steps w)\<rparr>"
  using assms
proof (induction n arbitrary: w i sg)
  case 0
  then show ?case by simp
next
  case (Suc n)
  let ?k = "step_ID (saga_Steps sg ! i)"
  have i: "i < length (saga_Steps sg)" using Suc.prems(2) by simp
  from SaveSaga_step_effect [OF Suc.prems(1) i]
  obtain w1 where w1: "SaveSaga_step a i w = Some w1"
    "untimed w1 = (untimed w)\<lparr>m_steps := (m_steps w)(?k \<mapsto> InSaga a i)\<rparr>"
    by blast
  have "load_saga (untimed w1) a = Some (strip_saga sg)"
    unfolding w1(2) using Suc.prems(1) by simp
  from load_saga_untimedD [OF this]
  obtain sg1 where sg1: "load_saga w1 a = Some sg1" "strip_saga sg1 = strip_saga sg"
    by blast
  note e = strip_saga_eqD [OF sg1(2)]
  have "Suc i + n = length (saga_Steps sg1)"
    using Suc.prems(2) e(3) by simp
  from Suc.IH [OF sg1(1) this]
  obtain w' where w': "SaveSaga_steps a (Suc i) n w1 = Done None w'"
    "untimed w' = (untimed w1)\<lparr>m_steps :=
        register_ids a (Suc i) (drop (Suc i) (map step_ID (saga_Steps sg1))) (m_steps w1)\<rparr>"
    by blast
  have "m_steps w1 = m_steps (untimed w1)" by simp
  also have "\<dots> = (m_steps w)(?k \<mapsto> InSaga a i)" unfolding w1(2) by simp
  finally have m1: "m_steps w1 = (m_steps w)(?k \<mapsto> InSaga a i)" .
  have d: "drop i (map step_ID (saga_Steps sg)) = ?k # drop (Suc i) (map step_ID (saga_Steps sg))"
    using i by (simp add: Cons_nth_drop_Suc [symmetric])
  show ?case
    using w1(1) w'(1) by (simp add: w'(2) w1(2) m1 e(2) d)
qed

lemma SaveSaga_tail:
  assumes sg: "load_saga w2 a = Some sg" and s2: "strip_saga sg2 = strip_saga sg"
    and u2: "untimed w2 = untimed w" and m2: "m_sagas w2 = m_sagas w" "m_steps w2 = m_steps w"
  shows "\<exists>w'. SaveSaga_steps a 0 (length (saga_Steps sg2))
                 ((store_saga a sg2 w2)\<lparr>m_sagas := (m_sagas w2)(saga_ID sg2 \<mapsto> a)\<rparr>) = Done None w' \<and>
           untimed w' = (untimed w)\<lparr>m_sagas := (m_sagas w)(saga_ID sg \<mapsto> a),
              m_steps := register_ids a 0 (map step_ID (saga_Steps sg)) (m_steps w)\<rparr>"
proof -
  note e = strip_saga_eqD [OF s2]
  define w4 where "w4 = (store_saga a sg2 w2)\<lparr>m_sagas := (m_sagas w2)(saga_ID sg2 \<mapsto> a)\<rparr>"
  have l4: "load_saga w4 a = Some sg2"
    using load_saga_SomeD [OF sg] by (simp add: w4_def load_saga_store_saga)
  have "store_saga a (strip_saga sg) (untimed w2) = untimed w2"
    using sg by (simp add: store_saga_same)
  then have u4: "untimed w4 = (untimed w)\<lparr>m_sagas := (m_sagas w)(saga_ID sg \<mapsto> a)\<rparr>"
    by (simp add: w4_def s2 u2 m2 e(4))
  have m4: "m_steps w4 = m_steps w" by (simp add: w4_def m2)
  from SaveSaga_steps_effect [OF l4, of 0 "length (saga_Steps sg2)"]
  obtain w' where w': "SaveSaga_steps a 0 (length (saga_Steps sg2)) w4 = Done None w'"
    "untimed w' = (untimed w4)\<lparr>m_steps :=
        register_ids a 0 (drop 0 (map step_ID (saga_Steps sg2))) (m_steps w4)\<rparr>"
    by auto
  have "untimed w' = (untimed w)\<lparr>m_sagas := (m_sagas w)(saga_ID sg \<mapsto> a),
              m_steps := register_ids a 0 (map step_ID (saga_Steps sg)) (m_steps w)\<rparr>"
    unfolding w'(2) u4 m4 by (simp add: e(2))
  with w'(1) show ?thesis unfolding w4_def by blast
qed

lemma SaveSaga_effect:
  assumes sg: "load_saga w a = Some sg"
  shows "\<exists>w'. MemoryStorage_SaveSaga a w = Done None w' \<and>
           untimed w' = (untimed w)\<lparr>m_sagas := (m_sagas w)(saga_ID sg \<mapsto> a),
              m_steps := register_ids a 0 (map step_ID (saga_Steps sg)) (m_steps w)\<rparr>"
proof (cases "IsZero (saga_CreatedAt sg)")
  case True
  define w2 where "w2 = w\<lparr>now_calls := Suc (Suc (now_calls w))\<rparr>"
  define sg2 where "sg2 = sg\<lparr>saga_UpdatedAt := now_src w (now_calls w),
                               saga_CreatedAt := now_src w (Suc (now_calls w))\<rparr>"
  have unf: "MemoryStorage_SaveSaga a w = SaveSaga_steps a 0 (length (saga_Steps sg2))
                 ((store_saga a sg2 w2)\<lparr>m_sagas := (m_sagas w2)(saga_ID sg2 \<mapsto> a)\<rparr>)"
    using sg True by (simp add: MemoryStorage_SaveSaga_def time_Now_def w2_def sg2_def)
  show ?thesis
    unfolding unf
    by (rule SaveSaga_tail) (simp_all add: w2_def sg2_def sg)
next
  case False
  define w2 where "w2 = w\<lparr>now_calls := Suc (now_calls w)\<rparr>"
  define sg2 where "sg2 = sg\<lparr>saga_UpdatedAt := now_src w (now_calls w)\<rparr>"
  have unf: "MemoryStorage_SaveSaga a w = SaveSaga_steps a 0 (length (saga_Steps sg2))
                 ((store_saga a sg2 w2)\<lparr>m_sagas := (m_sagas w2)(saga_ID sg2 \<mapsto> a)\<rparr>)"
    using sg False by (simp add: MemoryStorage_SaveSaga_def time_Now_def w2_def sg2_def)
  show ?thesis
    unfolding unf
    by (rule SaveSaga_tail) (simp_all add: w2_def sg2_def sg)
qed

lemma currentIndex_scan_prefix:
  "currentIndex_scan cur i steps =
     (if completed_prefix steps = 0 then cur else int (i + completed_prefix steps) - 1)"
  by (induction cur i steps rule: currentIndex_scan.induct) (simp_all add: completed_prefix_def)

lemma completed_prefix_le: "completed_prefix steps \<le> length steps"
  by (simp add: completed_prefix_def length_takeWhile_le)

lemma register_ids_other:
  "k \<notin> set ks \<Longrightarrow> register_ids a i ks m k = m k"
  by (induction ks arbitrary: i m) simp_all

lemma register_ids_nth:
  "distinct ks \<Longrightarrow> j < length ks \<Longrightarrow> register_ids a i ks m (ks ! j) = Some (InSaga a (i + j))"
proof (induction ks arbitrary: i m j)
  case Nil
  then show ?case by simp
next
  case (Cons k ks)
  show ?case
  proof (cases j)
    case 0
    with Cons.prems show ?thesis by (simp add: register_ids_other)
  next
    case (Suc j')
    with Cons.prems Cons.IH [of j' "Suc i"] show ?thesis by simp
  qed
qed

lemma StartSaga_steps_effect:
  "StartSaga_steps sagaID names w = (steps, w') \<Longrightarrow>
     map strip_step steps = fresh_steps sagaID (uuid_src w) (uuid_calls w) names \<and>
     saga_heap w' = saga_heap w \<and> step_heap w' = step_heap w \<and> m_sagas w' = m_sagas w \<and>
     m_steps w' = m_steps w \<and> published w' = published w \<and> uuid_src w' = uuid_src w \<and>
     now_src w' = now_src w \<and> uuid_calls w' = uuid_calls w + length names"
proof (induction names arbitrary: w steps w')
  case Nil
  then show ?case by simp
next
  case (Cons name rest)
  define w3 where "w3 = w\<lparr>uuid_calls := Suc (uuid_calls w), now_calls := Suc (Suc (now_calls w))\<rparr>"
  obtain more w4 where r: "StartSaga_steps sagaID rest w3 = (more, w4)"
    by (cases "StartSaga_steps sagaID rest w3") auto
  note ih = Cons.IH [OF r]
  have "steps = \<lparr> step_ID = uuid_src w (uuid_calls w), step_SagaID = sagaID, step_Name = name,
                   step_Status = StatusPending, step_Data = Some Map.empty, step_Error = [],
                   step_CompensateID = [], step_StartedAt = None,
                   step_CreatedAt = now_src w (now_calls w),
                   step_UpdatedAt = now_src w (Suc (now_calls w)) \<rparr> # more" and "w' = w4"
    using Cons.prems r by (simp_all add: uuid_New_def time_Now_def w3_def)
  with ih show ?case
    by (simp add: w3_def strip_step_def fresh_step_def)
qed

lemma StartSaga_unfold:
  "StartSaga orch name steps data w =
     (let (saga, w5) = saga_to_save name steps data w
      in and_then (SaveSaga (storage orch) saga w5) (\<lambda>err w6.
           case err of
             Some e \<Rightarrow> Done (Inl (''failed to save saga: '' @ e)) w6
           | None \<Rightarrow>
               (case load_saga w6 saga of
                  None \<Rightarrow> Panicked w6
                | Some sg \<Rightarrow>
                    if length (saga_Steps sg) > 0 then
                      and_then (Publish (pubsub orch) ''saga_events''
                                  \<lparr> msg_Type = ''step_execute'', msg_SagaID = uuid_src w (uuid_calls w),
                                    msg_StepID = step_ID (saga_Steps sg ! 0), msg_Data = data \<rparr> w6)
                        (\<lambda>_ w7. Done (Inr saga) w7)
                    else Done (Inr saga) w6)))"
  by (simp add: StartSaga_def saga_to_save_def uuid_New_def time_Now_def Let_def split: prod.splits)

lemma saga_to_save_effect:
  assumes "saga_to_save name steps data w = (a, w5)"
  shows "a = length (saga_heap w) \<and>
         (\<exists>sg. load_saga w5 a = Some sg \<and>
            strip_saga sg = \<lparr> saga_ID = uuid_src w (uuid_calls w), saga_Name = name,
                saga_Status = StatusPending,
                saga_Steps = fresh_steps (uuid_src w (uuid_calls w)) (uuid_src w) (Suc (uuid_calls w)) steps,
                saga_Data = data, saga_Error = [], saga_CreatedAt = 0, saga_UpdatedAt = 0 \<rparr>) \<and>
         m_sagas w5 = m_sagas w \<and> m_steps w5 = m_steps w \<and> published w5 = published w \<and>
         (\<forall>b. b < length (saga_heap w) \<longrightarrow> load_saga w5 b = load_saga w b) \<and>
         step_heap w5 = step_heap w"
proof -
  define w3 where "w3 = w\<lparr>uuid_calls := Suc (uuid_calls w), now_calls := Suc (Suc (now_calls w))\<rparr>"
  obtain stps w4 where r: "StartSaga_steps (uuid_src w (uuid_calls w)) steps w3 = (stps, w4)"
    by (cases "StartSaga_steps (uuid_src w (uuid_calls w)) steps w3") auto
  note e = StartSaga_steps_effect [OF r]
  from assms r have a: "a = length (saga_heap w4)"
    and w5: "w5 = w4\<lparr>saga_heap := saga_heap w4 @
        [\<lparr> saga_ID = uuid_src w (uuid_calls w), saga_Name = name, saga_Status = StatusPending,
           saga_Steps = stps, saga_Data = data, saga_Error = [],
           saga_CreatedAt = now_src w (now_calls w), saga_UpdatedAt = now_src w (Suc (now_calls w)) \<rparr>]\<rparr>"
    by (simp_all add: saga_to_save_def uuid_New_def time_Now_def new_saga_def w3_def)
  show ?thesis
    using e by (simp add: a w5 w3_def load_saga_def strip_saga_def nth_append)
qed

lemma step_ID_fresh_steps:
  "map step_ID (fresh_steps sagaID src n names) = map src [n ..< n + length names]"
proof (induction names arbitrary: n)
  case Nil
  show ?case by simp
next
  case (Cons name rest)
  have "[n ..< n + length (name # rest)] = n # [Suc n ..< Suc n + length rest]"
    by (simp add: upt_rec)
  with Cons [of "Suc n"] show ?case by (simp add: fresh_step_def)
qed

lemma length_fresh_steps [simp]: "length (fresh_steps sagaID src n names) = length names"
  by (induction names arbitrary: n) simp_all

lemma StartSaga_MemoryStorage:
  assumes "storage orch = MemoryStorage rs" and "pubsub orch = MemoryPubSub"
  shows "\<exists>w' sg. StartSaga orch name stepNames data w = Done (Inr (length (saga_heap w))) w' \<and>
     load_saga w' (length (saga_heap w)) = Some sg \<and>
     strip_saga sg = \<lparr> saga_ID = uuid_src w (uuid_calls w), saga_Name = name,
                saga_Status = StatusPending,
                saga_Steps = fresh_steps (uuid_src w (uuid_calls w)) (uuid_src w) (Suc (uuid_calls w)) stepNames,
                saga_Data = data, saga_Error = [], saga_CreatedAt = 0, saga_UpdatedAt = 0 \<rparr> \<and>
     m_sagas w' = (m_sagas w)(uuid_src w (uuid_calls w) \<mapsto> length (saga_heap w)) \<and>
     m_steps w' = register_ids (length (saga_heap w)) 0
                    (map (uuid_src w) [Suc (uuid_calls w) ..< Suc (uuid_calls w) + length stepNames])
                    (m_steps w) \<and>
     published w' = published w @
       (if stepNames = [] then []
        else [(''saga_events'',
               \<lparr> msg_Type = ''step_execute'', msg_SagaID = uuid_src w (uuid_calls w),
                 msg_StepID = uuid_src w (Suc (uuid_calls w)), msg_Data = data \<rparr>)])"
proof -
  let ?a = "length (saga_heap w)"
  let ?sid = "uuid_src w (uuid_calls w)"
  let ?SG = "\<lparr> saga_ID = ?sid, saga_Name = name, saga_Status = StatusPending,
                saga_Steps = fresh_steps ?sid (uuid_src w) (Suc (uuid_calls w)) stepNames,
                saga_Data = data, saga_Error = [], saga_CreatedAt = 0, saga_UpdatedAt = 0 \<rparr> :: 'a Saga"
  obtain a w5 where s: "saga_to_save name stepNames data w = (a, w5)"
    by (cases "saga_to_save name stepNames data w") auto
  note st = saga_to_save_effect [OF s]
  from st have a: "a = ?a"
    and f5: "m_sagas w5 = m_sagas w" "m_steps w5 = m_steps w" "published w5 = published w"
    by simp_all
  from st obtain sg5 where sg5: "load_saga w5 a = Some sg5" "strip_saga sg5 = ?SG"
    by (elim conjE exE)
  from SaveSaga_effect [OF sg5(1)] obtain w6 where
    w6: "MemoryStorage_SaveSaga a w5 = Done None w6"
     "untimed w6 = (untimed w5)\<lparr>m_sagas := (m_sagas w5)(saga_ID sg5 \<mapsto> a),
        m_steps := register_ids a 0 (map step_ID (saga_Steps sg5)) (m_steps w5)\<rparr>"
    by blast
  have "saga_ID (strip_saga sg5) = ?sid" unfolding sg5(2) by simp
  then have id5: "saga_ID sg5 = ?sid" by simp
  have "map step_ID (saga_Steps sg5) = map step_ID (saga_Steps (strip_saga sg5))"
    by (simp add: comp_def)
  also have "\<dots> = map (uuid_src w) [Suc (uuid_calls w) ..< Suc (uuid_calls w) + length stepNames]"
    unfolding sg5(2) by (simp add: step_ID_fresh_steps)
  finally have ids5: "map step_ID (saga_Steps sg5) =
      map (uuid_src w) [Suc (uuid_calls w) ..< Suc (uuid_calls w) + length stepNames]" .
  have "load_saga (untimed w6) a = Some (strip_saga sg5)"
    unfolding w6(2) using sg5(1) by simp
  from load_saga_untimedD [OF this]
  obtain sg where sg: "load_saga w6 a = Some sg" "strip_saga sg = strip_saga sg5"
    by blast
  note e = strip_saga_eqD [OF sg(2)]
  have "length (map step_ID (saga_Steps sg5)) = length stepNames"
    unfolding ids5 by (simp only: length_map length_upt add_diff_cancel_left')
  then have len: "length (saga_Steps sg) = length stepNames"
    using e(3) by simp
  have "m_sagas w6 = m_sagas (untimed w6)" by simp
  also have "\<dots> = (m_sagas w)(?sid \<mapsto> a)" unfolding w6(2) by (simp add: f5 id5)
  finally have ms: "m_sagas w6 = (m_sagas w)(?sid \<mapsto> a)" .
  have "m_steps w6 = m_steps (untimed w6)" by simp
  also have "\<dots> = register_ids a 0
       (map (uuid_src w) [Suc (uuid_calls w) ..< Suc (uuid_calls w) + length stepNames]) (m_steps w)"
    unfolding w6(2) by (simp add: f5 ids5)
  finally have mp: "m_steps w6 = register_ids a 0
       (map (uuid_src w) [Suc (uuid_calls w) ..< Suc (uuid_calls w) + length stepNames]) (m_steps w)" .
  have "published w6 = published (untimed w6)" by simp
  also have "\<dots> = published w" unfolding w6(2) by (simp add: f5)
  finally have pb: "published w6 = published w" .
  show ?thesis
  proof (cases stepNames)
    case Nil
    then have "StartSaga orch name stepNames data w = Done (Inr a) w6"
      using assms s w6(1) sg(1) len by (simp add: StartSaga_unfold)
    with sg sg5(2) ms mp pb Nil a show ?thesis by simp
  next
    case (Cons n ns)
    have "step_ID (saga_Steps sg ! 0) = map step_ID (saga_Steps sg) ! 0"
      using len Cons by simp
    also have "\<dots> = uuid_src w (Suc (uuid_calls w))"
      unfolding e(2) ids5 using Cons by (simp add: upt_rec)
    finally have i0: "step_ID (saga_Steps sg ! 0) = uuid_src w (Suc (uuid_calls w))" .
    have "StartSaga orch name stepNames data w =
        Done (Inr a) (w6\<lparr>published := published w6 @
          [(''saga_events'', \<lparr> msg_Type = ''step_execute'', msg_SagaID = ?sid,
                 msg_StepID = uuid_src w (Suc (uuid_calls w)), msg_Data = data \<rparr>)]\<rparr>)"
      using assms s w6(1) sg(1) len Cons i0
      by (simp add: StartSaga_unfold MemoryPubSub_Publish_def)
    with sg sg5(2) ms mp pb Cons a show ?thesis by simp
  qed
qed

lemma demo_world_sel:
  "saga_heap demo_world = [demo_saga]" "published demo_world = []"
  "uuid_calls demo_world = 0" "uuid_src demo_world = (\<lambda>n. replicate (Suc n) CHR ''u'')"
  "m_sagas demo_world = [''saga1'' \<mapsto> 0]"
  by (simp_all add: demo_world_def)





lemma step_heap_put_in_saga [simp]: "step_heap (put_in_saga s a w) = step_heap w"
  by (simp add: put_in_saga_def split: option.splits)





lemma compensate_msg_status [simp]:
  "compensate_msg (sg\<lparr>saga_Status := x\<rparr>) = compensate_msg sg"
  by (simp add: fun_eq_iff compensate_msg_def)




lemma step_ID_replace_first [simp]: "map step_ID (replace_first s xs) = map step_ID xs"
  by (induction xs) simp_all
















lemma load_saga_untimed_None: "load_saga (untimed w) a = None \<longleftrightarrow> load_saga w a = None"
  by simp


lemma sagas_loadable_published [simp]:
  "sagas_loadable (w\<lparr>published := ms\<rparr>) = sagas_loadable w"
  by (simp add: sagas_loadable_def)











lemma saga_errors_upd [simp]:
  "saga_errors (w\<lparr>now_calls := n\<rparr>) = saga_errors w"
  "saga_errors (w\<lparr>uuid_calls := n\<rparr>) = saga_errors w"
  "saga_errors (w\<lparr>published := ms\<rparr>) = saga_errors w"
  "saga_errors (w\<lparr>m_steps := mp\<rparr>) = saga_errors w"
  "saga_errors (w\<lparr>m_sagas := mg\<rparr>) = saga_errors w"
  "saga_errors (w\<lparr>step_heap := sh\<rparr>) = saga_errors w"
  by (simp_all add: saga_errors_def)

lemma saga_errors_store_saga:
  "load_saga w a = Some sg \<Longrightarrow> saga_Error sg' = saga_Error sg \<Longrightarrow>
   saga_errors (store_saga a sg' w) = saga_errors w"
  by (simp add: saga_errors_def store_saga_def load_saga_def map_update split: if_splits)
    (metis list_update_id nth_map)

lemma saga_errors_store_step [simp]: "saga_errors (store_step p s w) = saga_errors w"
  by (cases p) (auto simp add: store_step_def saga_errors_store_saga split: option.splits)

lemma saga_errors_put_in_saga [simp]: "saga_errors (put_in_saga s a w) = saga_errors w"
  by (auto simp add: put_in_saga_def saga_errors_store_saga split: option.splits)

lemma errs_and_then:
  assumes "saga_errors (final m) = saga_errors w"
    and "\<And>x w1. m = Done x w1 \<Longrightarrow> saga_errors (final (f x w1)) = saga_errors w1"
  shows "saga_errors (final (and_then m f)) = saga_errors w"
  using assms by (cases m) auto

lemma errs_SaveSaga_step:
  "SaveSaga_step a i w = Some w' \<Longrightarrow> saga_errors w' = saga_errors w"
  by (auto simp add: SaveSaga_step_def time_Now_def Let_def split: option.splits if_splits)

lemma errs_SaveSaga_steps: "saga_errors (final (SaveSaga_steps a i n w)) = saga_errors w"
proof (induction n arbitrary: i w)
  case 0
  show ?case by simp
next
  case (Suc n)
  show ?case
  proof (cases "SaveSaga_step a i w")
    case None
    then show ?thesis by simp
  next
    case (Some w')
    with Suc [of "Suc i" w'] errs_SaveSaga_step [OF Some] show ?thesis by simp
  qed
qed

lemma errs_SaveSaga [simp]: "saga_errors (final (MemoryStorage_SaveSaga a w)) = saga_errors w"
proof (cases "load_saga w a")
  case None
  then show ?thesis by (simp add: MemoryStorage_SaveSaga_def)
next
  case (Some sg)
  then show ?thesis
    by (simp add: MemoryStorage_SaveSaga_def time_Now_def Let_def errs_SaveSaga_steps
        saga_errors_store_saga)
qed

lemma errs_UpdateStep [simp]: "saga_errors (final (MemoryStorage_UpdateStep p w)) = saga_errors w"
proof (cases "load_step w p")
  case None
  then show ?thesis by (simp add: MemoryStorage_UpdateStep_def)
next
  case (Some s0)
  define s1 where "s1 = s0\<lparr>step_UpdatedAt := now_src w (now_calls w)\<rparr>"
  define w3 where "w3 = (store_step p s1 (w\<lparr>now_calls := Suc (now_calls w)\<rparr>))
                          \<lparr>m_steps := (m_steps w)(step_ID s0 \<mapsto> p)\<rparr>"
  have e3: "saga_errors w3 = saga_errors w" by (simp add: w3_def)
  have unf: "MemoryStorage_UpdateStep p w =
     (case m_sagas w (step_SagaID s0) of
        None \<Rightarrow> Done None w3
      | Some a \<Rightarrow>
          (case load_saga w3 a of
             None \<Rightarrow> Panicked w3
           | Some sg \<Rightarrow>
               let w4 = put_in_saga s1 a w3;
                   (t2, w5) = time_Now w4
               in (case load_saga w5 a of
                     None \<Rightarrow> Panicked w5
                   | Some sg' \<Rightarrow> Done None (store_saga a (sg'\<lparr>saga_UpdatedAt := t2\<rparr>) w5))))"
    using Some by (simp add: MemoryStorage_UpdateStep_def time_Now_def w3_def s1_def Let_def
        put_in_saga_def cong: option.case_cong)
  show ?thesis
    unfolding unf
    by (auto simp add: e3 time_Now_def Let_def saga_errors_store_saga split: option.splits)
qed

lemma errs_Publish [simp]:
  "saga_errors (final (MemoryPubSub_Publish topic msg w)) = saga_errors w"
  by (simp add: MemoryPubSub_Publish_def)

lemma errs_compensation_loop:
  assumes "pubsub orch = MemoryPubSub"
  shows "saga_errors (final (compensation_loop orch a n w)) = saga_errors w"
proof (induction n arbitrary: w)
  case 0
  show ?case by simp
next
  case (Suc i)
  show ?case
    using assms Suc
    by (auto simp add: MemoryPubSub_Publish_def Let_def split: option.splits)
qed

lemma errs_startCompensation:
  assumes "storage orch = MemoryStorage rs" and "pubsub orch = MemoryPubSub"
  shows "saga_errors (final (startCompensation orch a w)) = saga_errors w"
proof (cases "load_saga w a")
  case None
  then show ?thesis by (simp add: startCompensation_def)
next
  case (Some sg)
  have "saga_errors (final (and_then (MemoryStorage_SaveSaga a
            (store_saga a (sg\<lparr>saga_Status := StatusFailed\<rparr>) w))
          (\<lambda>_ w1. case load_saga w1 a of
                     None \<Rightarrow> Panicked w1
                   | Some sg1 \<Rightarrow> compensation_loop orch a (length (saga_Steps sg1)) w1))) =
        saga_errors (store_saga a (sg\<lparr>saga_Status := StatusFailed\<rparr>) w)"
    by (rule errs_and_then)
      (auto simp add: errs_compensation_loop [OF assms(2)] split: option.splits)
  with Some assms show ?thesis
    by (simp add: startCompensation_def saga_errors_store_saga)
qed

lemma errs_continueOrComplete:
  assumes "storage orch = MemoryStorage rs" and "pubsub orch = MemoryPubSub"
  shows "saga_errors (final (continueOrComplete orch a w)) = saga_errors w"
proof (cases "load_saga w a")
  case None
  then show ?thesis by (simp add: continueOrComplete_def)
next
  case (Some sg)
  have "saga_errors (final (and_then (MemoryStorage_SaveSaga a
            (store_saga a (sg\<lparr>saga_Status := StatusCompleted\<rparr>) w)) (\<lambda>_ w1. Done () w1))) =
        saga_errors (store_saga a (sg\<lparr>saga_Status := StatusCompleted\<rparr>) w)"
    by (rule errs_and_then) auto
  with Some assms show ?thesis
    by (simp add: continueOrComplete_def saga_errors_store_saga MemoryPubSub_Publish_def Let_def)
qed

lemma errs_save_and_continue:
  assumes "storage orch = MemoryStorage rs" and "pubsub orch = MemoryPubSub"
  shows "saga_errors (final (and_then (MemoryStorage_SaveSaga a w)
            (\<lambda>_ w2. and_then (continueOrComplete orch a w2) (\<lambda>_ w3. Done None w3)))) =
         saga_errors w"
proof (rule errs_and_then)
  show "saga_errors (final (MemoryStorage_SaveSaga a w)) = saga_errors w" by simp
next
  fix x w1
  show "saga_errors (final (and_then (continueOrComplete orch a w1) (\<lambda>_ w3. Done None w3))) =
      saga_errors w1"
    by (rule errs_and_then) (simp_all add: errs_continueOrComplete [OF assms])
qed

lemma errs_ExecuteStep_handle:
  assumes st: "storage orch = MemoryStorage rs" and ps: "pubsub orch = MemoryPubSub"
  shows "saga_errors (final (ExecuteStep_handle orch h p a w)) = saga_errors w"
proof (cases "load_saga w a")
  case None
  then show ?thesis by (simp add: ExecuteStep_handle_def)
next
  case sg: (Some sg)
  show ?thesis
  proof (cases "load_step w p")
    case None
    with sg show ?thesis by (simp add: ExecuteStep_handle_def)
  next
    case (Some s)
    obtain execData err where x: "Execute h (merged_data sg s) = (execData, err)"
      by (cases "Execute h (merged_data sg s)") auto
    show ?thesis
    proof (cases err)
      case (Some e)
      have "saga_errors (final (and_then (MemoryStorage_UpdateStep p
                (store_step p (s\<lparr>step_Status := StatusFailed, step_Error := e\<rparr>) w))
              (\<lambda>_ w1. and_then (startCompensation orch a w1) (\<lambda>_ w2. Done None w2)))) =
            saga_errors (store_step p (s\<lparr>step_Status := StatusFailed, step_Error := e\<rparr>) w)"
      proof (rule errs_and_then)
        fix y w1
        show "saga_errors (final (and_then (startCompensation orch a w1) (\<lambda>_ w2. Done None w2))) =
            saga_errors w1"
          by (rule errs_and_then) (simp_all add: errs_startCompensation [OF st ps])
      qed simp
      with sg \<open>load_step w p = Some s\<close> x Some st show ?thesis
        by (simp add: ExecuteStep_handle_def)
    next
      case None
      let ?w0 = "store_step p (s\<lparr>step_Status := StatusCompleted, step_Data := Some execData\<rparr>) w"
      have "saga_errors (final (and_then (MemoryStorage_UpdateStep p ?w0)
              (\<lambda>_ w1.
                    case load_saga w1 a of
                      None \<Rightarrow> Panicked w1
                    | Some sg1 \<Rightarrow>
                        if execData = Map.empty then
                          and_then (SaveSaga (storage orch) a w1)
                            (\<lambda>_ w2. and_then (continueOrComplete orch a w2) (\<lambda>_ w3. Done None w3))
                        else
                          (case saga_Data sg1 of
                             None \<Rightarrow> Panicked w1
                           | Some d \<Rightarrow>
                               and_then (SaveSaga (storage orch) a
                                           (store_saga a (sg1\<lparr>saga_Data := Some (d ++ execData)\<rparr>) w1))
                                 (\<lambda>_ w2. and_then (continueOrComplete orch a w2)
                                            (\<lambda>_ w3. Done None w3)))))) =
            saga_errors ?w0"
      proof (rule errs_and_then)
        fix y w1
        show "saga_errors (final (case load_saga w1 a of
                      None \<Rightarrow> Panicked w1
                    | Some sg1 \<Rightarrow>
                        if execData = Map.empty then
                          and_then (SaveSaga (storage orch) a w1)
                            (\<lambda>_ w2. and_then (continueOrComplete orch a w2) (\<lambda>_ w3. Done None w3))
                        else
                          (case saga_Data sg1 of
                             None \<Rightarrow> Panicked w1
                           | Some d \<Rightarrow>
                               and_then (SaveSaga (storage orch) a
                                           (store_saga a (sg1\<lparr>saga_Data := Some (d ++ execData)\<rparr>) w1))
                                 (\<lambda>_ w2. and_then (continueOrComplete orch a w2)
                                            (\<lambda>_ w3. Done None w3))))) = saga_errors w1"
          by (auto simp add: st errs_save_and_continue [OF st ps] saga_errors_store_saga
              split: option.splits)
      qed simp
      with sg \<open>load_step w p = Some s\<close> x None st show ?thesis
        by (simp add: ExecuteStep_handle_def)
    qed
  qed
qed

lemma errs_ExecuteStep:
  assumes st: "storage orch = MemoryStorage rs" and ps: "pubsub orch = MemoryPubSub"
  shows "saga_errors (final (ExecuteStep orch stepID w)) = saga_errors w"
proof (cases "m_steps w stepID")
  case None
  then show ?thesis by (simp add: ExecuteStep_def st MemoryStorage_GetStep_def)
next
  case (Some p)
  show ?thesis
  proof (cases "load_step w p")
    case None
    with Some show ?thesis by (simp add: ExecuteStep_def st GetStep_found)
  next
    case s: (Some s)
    show ?thesis
    proof (cases "step_Status s \<noteq> StatusPending \<or> handlers orch (step_Name s) = None")
      case True
      with Some s show ?thesis by (auto simp add: ExecuteStep_def st GetStep_found)
    next
      case False
      then obtain h where h: "handlers orch (step_Name s) = Some h"
        and pend: "step_Status s = StatusPending" by auto
      let ?w3 = "store_step p (s\<lparr>step_Status := StatusProcessing,
          step_StartedAt := Some (now_src w (now_calls w))\<rparr>) (w\<lparr>now_calls := Suc (now_calls w)\<rparr>)"
      have "saga_errors (final (and_then (MemoryStorage_UpdateStep p ?w3) (\<lambda>err w4.
                            case err of
                              Some e \<Rightarrow> Done (Some (''failed to mark step as processing: '' @ e)) w4
                            | None \<Rightarrow>
                                (case load_step w4 p of
                                   None \<Rightarrow> Panicked w4
                                 | Some s4 \<Rightarrow>
                                     and_then (GetSaga (storage orch) (step_SagaID s4) w4) (\<lambda>r5 w5.
                                       case r5 of
                                         Inl e \<Rightarrow> Done (Some (''failed to get saga: '' @ e)) w5
                                       | Inr saga \<Rightarrow> ExecuteStep_handle orch h p saga w5))))) =
          saga_errors ?w3"
        by (rule errs_and_then)
          (auto simp add: st MemoryStorage_GetSaga_def errs_ExecuteStep_handle [OF st ps]
            split: option.splits)
      with Some s h pend show ?thesis
        by (simp add: ExecuteStep_def st GetStep_found time_Now_def)
    qed
  qed
qed

lemma errs_CompensateStep:
  assumes st: "storage orch = MemoryStorage rs" and ps: "pubsub orch = MemoryPubSub"
  shows "saga_errors (final (CompensateStep orch stepID w)) = saga_errors w"
proof -
  have u: "saga_errors (final (and_then (MemoryStorage_UpdateStep p w0) (\<lambda>_ w3. Done None w3))) =
      saga_errors w0" for p and w0 :: "'a world"
    by (rule errs_and_then) simp_all
  show ?thesis
    by (auto simp add: CompensateStep_def st MemoryStorage_GetStep_def MemoryStorage_GetSaga_def
        u Let_def split: option.splits prod.splits)
qed

lemma errs_deliver:
  assumes st: "storage orch = MemoryStorage rs" and ps: "pubsub orch = MemoryPubSub"
  shows "saga_errors (final (deliver orch msg w)) = saga_errors w"
proof -
  have "saga_errors (final (and_then (ExecuteStep orch i w) (\<lambda>_ w1. Done () w1))) = saga_errors w"
    "saga_errors (final (and_then (CompensateStep orch i w) (\<lambda>_ w1. Done () w1))) = saga_errors w"
    for i
    by (rule errs_and_then, simp_all add: errs_ExecuteStep [OF st ps] errs_CompensateStep [OF st ps])+
  then show ?thesis by (simp add: deliver_def)
qed

lemma errs_recover_loop:
  assumes st: "rm_storage r = MemoryStorage rs" and ps: "rm_pubsub r = MemoryPubSub"
  shows "saga_errors (final (recover_loop r stuck w)) = saga_errors w"
proof (induction stuck arbitrary: w)
  case Nil
  show ?case by simp
next
  case (Cons x rest)
  show ?case
  proof (cases "step_Status x = StatusProcessing")
    case True
    let ?p = "Cell (length (step_heap w))"
    let ?w1 = "w\<lparr>step_heap := step_heap w @ [x\<lparr>step_Status := StatusPending, step_StartedAt := None\<rparr>]\<rparr>"
    have "saga_errors (final (and_then (MemoryStorage_UpdateStep ?p ?w1) (\<lambda>_ w2.
              case load_step w2 ?p of
                None \<Rightarrow> Panicked w2
              | Some s \<Rightarrow>
                  and_then (Publish (rm_pubsub r) ''saga_events''
                              \<lparr> msg_Type = ''step_execute'', msg_SagaID = step_SagaID s,
                                msg_StepID = step_ID s, msg_Data = None \<rparr> w2)
                    (\<lambda>_ w3. recover_loop r rest w3)))) = saga_errors ?w1"
      by (rule errs_and_then)
        (auto simp add: ps MemoryPubSub_Publish_def Cons split: option.splits)
    with True st show ?thesis by (simp add: new_step_def)
  next
    case False
    with ps Cons show ?thesis by (simp add: MemoryPubSub_Publish_def)
  qed
qed

lemma errs_recoverStuckSteps:
  assumes st: "rm_storage r = MemoryStorage rs" and ps: "rm_pubsub r = MemoryPubSub"
  shows "saga_errors (final (recoverStuckSteps r w)) = saga_errors w"
  by (auto simp add: recoverStuckSteps_def st MemoryStorage_GetStuckSteps_def time_Now_def
      errs_recover_loop [OF st ps] split: option.splits)

lemma errs_StartSaga:
  assumes st: "storage orch = MemoryStorage rs" and ps: "pubsub orch = MemoryPubSub"
  shows "saga_errors (final (StartSaga orch name steps data w)) = saga_errors w @ [[]]"
  using StartSaga_MemoryStorage [OF st ps, of name steps data w]
proof (elim exE conjE)
  fix w' sg
  assume r: "StartSaga orch name steps data w = Done (Inr (length (saga_heap w))) w'"
  obtain a w5 where s: "saga_to_save name steps data w = (a, w5)"
    by (cases "saga_to_save name steps data w") auto
  from saga_to_save_effect [OF s] obtain sg5 where
    sg5: "load_saga w5 a = Some sg5" "a = length (saga_heap w)"
      "strip_saga sg5 = \<lparr> saga_ID = uuid_src w (uuid_calls w), saga_Name = name,
                saga_Status = StatusPending,
                saga_Steps = fresh_steps (uuid_src w (uuid_calls w)) (uuid_src w) (Suc (uuid_calls w)) steps,
                saga_Data = data, saga_Error = [], saga_CreatedAt = 0, saga_UpdatedAt = 0 \<rparr>"
    and old: "\<forall>b. b < length (saga_heap w) \<longrightarrow> load_saga w5 b = load_saga w b"
    by (elim conjE exE)
  have "saga_Error (strip_saga sg5) = []" unfolding sg5(3) by simp
  then have e5: "saga_Error sg5 = []" by simp
  have len5: "length (saga_heap w5) = Suc (length (saga_heap w))"
    using s by (auto simp add: saga_to_save_def uuid_New_def time_Now_def new_saga_def
        split: prod.splits dest: StartSaga_steps_effect)
  have "saga_errors w5 = saga_errors w @ [[]]"
  proof (rule nth_equalityI)
    show "length (saga_errors w5) = length (saga_errors w @ [[]])"
      by (simp add: saga_errors_def len5)
  next
    fix i assume "i < length (saga_errors w5)"
    then have i: "i < Suc (length (saga_heap w))" by (simp add: saga_errors_def len5)
    show "saga_errors w5 ! i = (saga_errors w @ [[]]) ! i"
    proof (cases "i < length (saga_heap w)")
      case True
      with old have "load_saga w5 i = load_saga w i" by simp
      with True i len5 show ?thesis
        by (simp add: saga_errors_def load_saga_def nth_append)
    next
      case False
      with i have "i = length (saga_heap w)" by simp
      with sg5 e5 len5 show ?thesis
        by (simp add: saga_errors_def load_saga_def nth_append split: if_splits)
    qed
  qed
  moreover have "saga_errors (final (StartSaga orch name steps data w)) = saga_errors w5"
    using s by (auto simp add: StartSaga_unfold st ps MemoryPubSub_Publish_def
        intro!: errs_and_then split: option.splits)
  ultimately show ?thesis by simp
qed

lemma errs_Builder_Execute:
  assumes st: "storage orch = MemoryStorage rs" and ps: "pubsub orch = MemoryPubSub"
  shows "saga_errors (final (snd (Builder_Execute b orch w))) = saga_errors w \<or>
         saga_errors (final (snd (Builder_Execute b orch w))) = saga_errors w @ [[]]"
proof -
  have "storage (register_all xs o') = storage o' \<and> pubsub (register_all xs o') = pubsub o'"
    for xs and o' :: "'a Orchestrator"
    by (induction xs arbitrary: o') (simp_all add: RegisterHandler_def)
  with st ps have "storage (register_all (b_steps b) orch) = MemoryStorage rs"
    "pubsub (register_all (b_steps b) orch) = MemoryPubSub"
    by simp_all
  from errs_StartSaga [OF this] show ?thesis
    by (simp add: Builder_Execute_def Let_def)
qed

lemma orch_step_errors:
  "orch_step w w' \<Longrightarrow> saga_errors w' = saga_errors w \<or> saga_errors w' = saga_errors w @ [[]]"
proof (induction rule: orch_step.induct)
  case (start orch rs w name steps data)
  then show ?case by (simp add: errs_StartSaga)
next
  case (build orch rs b w)
  then show ?case by (rule errs_Builder_Execute)
next
  case (execute orch rs stepID w)
  then show ?case by (simp add: errs_ExecuteStep)
next
  case (compensate orch rs stepID w)
  then show ?case by (simp add: errs_CompensateStep)
next
  case (message orch rs msg w)
  then show ?case by (simp add: errs_deliver)
next
  case (recover r rs w)
  then show ?case by (simp add: errs_recoverStuckSteps)
qed

lemma reachable_errors: "reachable w \<Longrightarrow> set (saga_errors w) \<subseteq> {[]}"
proof (induction rule: reachable.induct)
  case (init w)
  then show ?case by (simp add: saga_errors_def)
next
  case (step w w')
  from orch_step_errors [OF step.hyps(2)] step.IH show ?case by auto
qed

lemma failed_world_saga:
  "\<exists>sg. load_saga failed_world 0 = Some sg \<and> saga_Status sg = StatusFailed \<and>
        map step_Error (saga_Steps sg) = [''boom'']"
  by (simp add: failed_world_def started_world_def empty_world_def StartSaga_def
      eval_defs demo_defs Status_defs)

section \<open>A step without a handler\<close>

text \<open>
  C9. On the MemoryStorage, \<^verbatim>\<open>ExecuteStep\<close> on a stored Pending step whose name has
  no handler in the registry returns the error "no handler for step: <name>" and leaves
  the whole state as it was: the step is not marked Processing, nothing is written to the
  storage and nothing is published. \<^verbatim>\<open>CompensateStep\<close> does the same on a stored
  Completed step whose name has no handler.
\<close>

theorem missing_handler_no_effect:
  assumes "storage orch = MemoryStorage rs"
    and "m_steps w stepID = Some p" and "load_step w p = Some s"
    and "handlers orch (step_Name s) = None"
  shows "(step_Status s = StatusPending \<longrightarrow>
            ExecuteStep orch stepID w = Done (Some (''no handler for step: '' @ step_Name s)) w) \<and>
         (step_Status s = StatusCompleted \<longrightarrow>
            CompensateStep orch stepID w = Done (Some (''no handler for step: '' @ step_Name s)) w)"
  using assms by (simp add: ExecuteStep_def CompensateStep_def GetStep_found)

theorem missing_handler_no_effect_witness:
  "ExecuteStep demo_orch ''s3'' demo_world = Done (Some ''no handler for step: c'') demo_world \<and>
   CompensateStep (NewOrchestrator (MemoryStorage demo_range) MemoryPubSub) ''s1'' demo_world =
     Done (Some ''no handler for step: a'') demo_world"
proof -
  have "ExecuteStep demo_orch ''s3'' demo_world = Done (Some ''no handler for step: c'') demo_world"
    using missing_handler_no_effect [of demo_orch demo_range demo_world "''s3''" "InSaga 0 2",
        OF _ _ demo_load_step(3)]
    by (simp add: demo_defs Status_defs)
  moreover have "CompensateStep (NewOrchestrator (MemoryStorage demo_range) MemoryPubSub) ''s1''
      demo_world = Done (Some ''no handler for step: a'') demo_world"
    using missing_handler_no_effect [of "NewOrchestrator (MemoryStorage demo_range) MemoryPubSub"
        demo_range demo_world "''s1''" "InSaga 0 0", OF _ _ demo_load_step(1)]
    by (simp add: demo_defs Status_defs)
  ultimately show ?thesis by simp
qed

section \<open>The idempotency guard of ExecuteStep\<close>

text \<open>
  C3. On the MemoryStorage, \<^verbatim>\<open>ExecuteStep\<close> on a stored step whose status is not
  Pending returns nil and leaves the whole state as it was (step, saga and published
  messages). Hence, when the first delivery of a \<^verbatim>\<open>step_execute\<close> message has left
  the step Completed, delivering the message a second time ends in the state the first
  delivery ended in.
\<close>

theorem non_pending_ExecuteStep_noop:
  assumes "storage orch = MemoryStorage rs"
  shows "(\<forall>w stepID p s. m_steps w stepID = Some p \<longrightarrow> load_step w p = Some s \<longrightarrow>
            step_Status s \<noteq> StatusPending \<longrightarrow> ExecuteStep orch stepID w = Done None w) \<and>
         (\<forall>w msg w1 p s. msg_Type msg = ''step_execute'' \<longrightarrow> deliver orch msg w = Done () w1 \<longrightarrow>
            m_steps w1 (msg_StepID msg) = Some p \<longrightarrow> load_step w1 p = Some s \<longrightarrow>
            step_Status s = StatusCompleted \<longrightarrow>
            and_then (deliver orch msg w) (\<lambda>_. deliver orch msg) = deliver orch msg w)"
  using assms
  by (auto simp add: ExecuteStep_def deliver_def GetStep_found Status_defs)

theorem non_pending_ExecuteStep_noop_witness:
  "ExecuteStep demo_orch ''s1'' demo_world = Done None demo_world \<and>
   and_then (deliver demo_orch_ok demo_execute_s2 demo_world)
     (\<lambda>_. deliver demo_orch_ok demo_execute_s2)
     = deliver demo_orch_ok demo_execute_s2 demo_world"
proof -
  have a: "ExecuteStep demo_orch ''s1'' demo_world = Done None demo_world"
    using non_pending_ExecuteStep_noop [OF demo_storage(1)] demo_load_step(1)
    by (simp add: demo_defs Status_defs)
  obtain w1 where w1: "deliver demo_orch_ok demo_execute_s2 demo_world = Done () w1"
    "m_steps w1 ''s2'' = Some (InSaga 0 1)"
    "map_option step_Status (load_step w1 (InSaga 0 1)) = Some StatusCompleted"
    using demo_first_delivery by blast
  from w1(3) obtain s where s: "load_step w1 (InSaga 0 1) = Some s" "step_Status s = StatusCompleted"
    by auto
  have "and_then (deliver demo_orch_ok demo_execute_s2 demo_world)
      (\<lambda>_. deliver demo_orch_ok demo_execute_s2)
     = deliver demo_orch_ok demo_execute_s2 demo_world"
    using non_pending_ExecuteStep_noop [OF demo_storage(2)] w1(1,2) s
    by (simp add: demo_execute_s2_def)
  with a show ?thesis by simp
qed

section \<open>GetStuckSteps of the MemoryStorage\<close>

text \<open>
  C7, amended. For every timeout below the maximum Duration, \<^verbatim>\<open>GetStuckSteps\<close> of the
  MemoryStorage returns the stored steps (one for each key of the step map, in the order
  the map is ranged over) that are Pending with \<open>updated_at\<close> strictly older than now
  minus timeout, or Processing with \<open>started_at\<close> non-null and strictly older than now
  minus timeout, and no other step; now is one reading of the clock.
\<close>

theorem GetStuckSteps_exact:
  assumes "minDuration \<le> timeout" and "timeout < maxDuration"
    and "steps_loadable w"
    and "set (rs (w\<lparr>now_calls := Suc (now_calls w)\<rparr>)) = dom (m_steps w)"
  shows "\<exists>stuck. MemoryStorage_GetStuckSteps rs timeout w =
            Done (Inr stuck) (w\<lparr>now_calls := Suc (now_calls w)\<rparr>) \<and>
          stuck = filter (older_than (now_src w (now_calls w)) timeout)
                    (stored_steps w (rs (w\<lparr>now_calls := Suc (now_calls w)\<rparr>))) \<and>
          set stuck = {s. \<exists>k p. m_steps w k = Some p \<and> load_step w p = Some s \<and>
                                 older_than (now_src w (now_calls w)) timeout s}"
proof -
  let ?w1 = "w\<lparr>now_calls := Suc (now_calls w)\<rparr>"
  let ?now = "now_src w (now_calls w)"
  have l: "steps_loadable ?w1"
    using assms(3) by (simp add: steps_loadable_def)
  have st: "stored_steps ?w1 ks = stored_steps w ks" for ks
    by (simp add: stored_steps_def cong: option.case_cong)
  have f: "filter (is_stuck ?now timeout) xs = filter (older_than ?now timeout) xs" for xs :: "'a Step list"
    by (simp add: is_stuck_older_than [OF assms(1,2)] cong: filter_cong)
  have "MemoryStorage_GetStuckSteps rs timeout w =
      Done (Inr (filter (older_than ?now timeout) (stored_steps w (rs ?w1)))) ?w1"
    by (simp add: MemoryStorage_GetStuckSteps_def time_Now_def stuck_scan_filter [OF l] st f)
  moreover have "set (filter (older_than ?now timeout) (stored_steps w (rs ?w1))) =
      {s. \<exists>k p. m_steps w k = Some p \<and> load_step w p = Some s \<and> older_than ?now timeout s}"
    using set_stored_steps [OF assms(4)] by auto
  ultimately show ?thesis by simp
qed

theorem GetStuckSteps_exact_witness:
  "\<exists>stuck. MemoryStorage_GetStuckSteps demo_range 500 demo_world =
            Done (Inr stuck) (demo_world\<lparr>now_calls := 1\<rparr>) \<and>
          stuck = [demo_step ''s2'' ''b'' StatusPending, demo_step ''s3'' ''c'' StatusPending]"
proof -
  have l: "steps_loadable demo_world"
    by (auto simp add: steps_loadable_def demo_defs load_step_def load_saga_def split: if_splits)
  have d: "set (demo_range (demo_world\<lparr>now_calls := Suc (now_calls demo_world)\<rparr>)) = dom (m_steps demo_world)"
    by (auto simp add: demo_defs)
  have c: "now_calls demo_world = 0" by (simp add: demo_defs)
  show ?thesis
    using GetStuckSteps_exact [of 500 demo_world demo_range, OF _ _ l d]
    by (simp add: minDuration_def maxDuration_def stored_steps_def
        demo_defs load_step_def load_saga_def older_than_def Status_defs)
qed

text \<open>
  C7 as stated fails at the maximum Duration: \<^verbatim>\<open>now.Sub(t)\<close> is never above it, so
  no step is returned, however old.
\<close>

theorem GetStuckSteps_saturated_counterexample:
  "m_steps old_world ''s1'' = Some (Cell 0) \<and> load_step old_world (Cell 0) = Some old_step \<and>
   step_Status old_step = StatusProcessing \<and> step_StartedAt old_step = Some 0 \<and>
   (0::int) < now_src old_world (now_calls old_world) - maxDuration \<and>
   MemoryStorage_GetStuckSteps old_range maxDuration old_world =
     Done (Inr []) (old_world\<lparr>now_calls := 1\<rparr>)"
  by (simp add: old_world_def old_step_def old_range_def demo_step_def epoch_2026_def maxDuration_def
      minDuration_def load_step_def MemoryStorage_GetStuckSteps_def time_Now_def is_stuck_def
      Sub_def Status_defs)

section \<open>The continuation scan\<close>

text \<open>
  C2. On the MemoryStorage and the MemoryPubSub, for every saga, \<^verbatim>\<open>continueOrComplete\<close>
  computes \<open>k\<close>, the last index of the maximal prefix of Completed steps (-1 when step 0
  is not Completed). If \<open>k + 1 < len(steps)\<close> it publishes exactly one
  \<^verbatim>\<open>step_execute\<close> message on \<^verbatim>\<open>saga_events\<close> with the ID of step \<open>k + 1\<close> and
  changes nothing else (the saga keeps its status). Otherwise it sets the saga's status
  to Completed and saves the saga: the storage holds it under its ID, Completed, with the
  same steps, and nothing is published.
\<close>

theorem continueOrComplete_scan:
  assumes "storage orch = MemoryStorage rs" and "pubsub orch = MemoryPubSub"
    and "load_saga w saga = Some sg"
  shows "currentIndex_scan (- 1) 0 (saga_Steps sg) = int (completed_prefix (saga_Steps sg)) - 1 \<and>
         (completed_prefix (saga_Steps sg) < length (saga_Steps sg) \<longrightarrow>
            continueOrComplete orch saga w =
              Done () (w\<lparr>published := published w @
                 [(''saga_events'',
                   \<lparr> msg_Type = ''step_execute'', msg_SagaID = saga_ID sg,
                     msg_StepID = step_ID (saga_Steps sg ! completed_prefix (saga_Steps sg)),
                     msg_Data = saga_Data sg \<rparr>)]\<rparr>)) \<and>
         (\<not> completed_prefix (saga_Steps sg) < length (saga_Steps sg) \<longrightarrow>
            (\<exists>w' sg'. continueOrComplete orch saga w = Done () w' \<and>
               load_saga w' saga = Some sg' \<and> saga_Status sg' = StatusCompleted \<and>
               m_sagas w' (saga_ID sg) = Some saga \<and> published w' = published w \<and>
               map strip_step (saga_Steps sg') = map strip_step (saga_Steps sg)))"
proof -
  let ?n = "completed_prefix (saga_Steps sg)"
  have k: "currentIndex_scan (- 1) 0 (saga_Steps sg) = int ?n - 1"
    by (simp add: currentIndex_scan_prefix)
  have pub: "?n < length (saga_Steps sg) \<Longrightarrow> continueOrComplete orch saga w =
              Done () (w\<lparr>published := published w @
                 [(''saga_events'',
                   \<lparr> msg_Type = ''step_execute'', msg_SagaID = saga_ID sg,
                     msg_StepID = step_ID (saga_Steps sg ! ?n),
                     msg_Data = saga_Data sg \<rparr>)]\<rparr>)"
    using assms by (simp add: continueOrComplete_def k MemoryPubSub_Publish_def)
  have fin: "\<exists>w' sg'. continueOrComplete orch saga w = Done () w' \<and>
               load_saga w' saga = Some sg' \<and> saga_Status sg' = StatusCompleted \<and>
               m_sagas w' (saga_ID sg) = Some saga \<and> published w' = published w \<and>
               map strip_step (saga_Steps sg') = map strip_step (saga_Steps sg)"
    if n: "\<not> ?n < length (saga_Steps sg)"
  proof -
    define sg1 where "sg1 = sg\<lparr>saga_Status := StatusCompleted\<rparr>"
    define w1 where "w1 = store_saga saga sg1 w"
    have l1: "load_saga w1 saga = Some sg1"
      using load_saga_SomeD [OF assms(3)] by (simp add: w1_def load_saga_store_saga)
    from SaveSaga_effect [OF l1]
    obtain w' where w': "MemoryStorage_SaveSaga saga w1 = Done None w'"
      "untimed w' = (untimed w1)\<lparr>m_sagas := (m_sagas w1)(saga_ID sg1 \<mapsto> saga),
              m_steps := register_ids saga 0 (map step_ID (saga_Steps sg1)) (m_steps w1)\<rparr>"
      by blast
    have "load_saga (untimed w') saga = Some (strip_saga sg1)"
      unfolding w'(2) using l1 by simp
    from load_saga_untimedD [OF this]
    obtain sg' where sg': "load_saga w' saga = Some sg'" "strip_saga sg' = strip_saga sg1"
      by blast
    note e = strip_saga_eqD [OF sg'(2)]
    have "m_sagas w' = m_sagas (untimed w')" by simp
    also have "\<dots> = (m_sagas w)(saga_ID sg \<mapsto> saga)"
      unfolding w'(2) by (simp add: w1_def sg1_def)
    finally have ms: "m_sagas w' (saga_ID sg) = Some saga" by simp
    have "published w' = published (untimed w')" by simp
    also have "\<dots> = published w" unfolding w'(2) by (simp add: w1_def)
    finally have pb: "published w' = published w" .
    have "continueOrComplete orch saga w = Done () w'"
      using assms n w'(1) by (simp add: continueOrComplete_def k w1_def sg1_def)
    with sg'(1) e(1,5) ms pb show ?thesis by (simp add: sg1_def)
  qed
  from k pub fin show ?thesis by blast
qed

theorem continueOrComplete_scan_witness:
  "continueOrComplete demo_orch 0 demo_world =
     Done () (demo_world\<lparr>published :=
        [(''saga_events'', \<lparr> msg_Type = ''step_execute'', msg_SagaID = ''saga1'',
                             msg_StepID = ''s2'', msg_Data = Some Map.empty \<rparr>)]\<rparr>) \<and>
   (\<exists>w' sg'. continueOrComplete demo_orch 0 done_world = Done () w' \<and>
       load_saga w' 0 = Some sg' \<and> saga_Status sg' = StatusCompleted \<and>
       m_sagas w' ''saga1'' = Some 0 \<and> published w' = [])"
proof -
  have l: "load_saga demo_world 0 = Some demo_saga"
    by (simp add: load_saga_def demo_defs)
  have p: "completed_prefix (saga_Steps demo_saga) = 1"
    by (simp add: completed_prefix_def demo_defs Status_defs)
  have a: "continueOrComplete demo_orch 0 demo_world =
     Done () (demo_world\<lparr>published :=
        [(''saga_events'', \<lparr> msg_Type = ''step_execute'', msg_SagaID = ''saga1'',
                             msg_StepID = ''s2'', msg_Data = Some Map.empty \<rparr>)]\<rparr>)"
    using continueOrComplete_scan [OF demo_storage(1) demo_storage(3) l] p
    by (simp add: demo_defs)
  have l2: "load_saga done_world 0 = Some (demo_saga\<lparr>saga_Steps :=
      [demo_step ''s1'' ''a'' StatusCompleted, demo_step ''s2'' ''b'' StatusCompleted,
       demo_step ''s3'' ''c'' StatusCompleted]\<rparr>)"
    by (simp add: load_saga_def done_world_def demo_defs)
  have b: "\<exists>w' sg'. continueOrComplete demo_orch 0 done_world = Done () w' \<and>
       load_saga w' 0 = Some sg' \<and> saga_Status sg' = StatusCompleted \<and>
       m_sagas w' ''saga1'' = Some 0 \<and> published w' = []"
    using continueOrComplete_scan [OF demo_storage(1) demo_storage(3) l2]
    by (simp add: completed_prefix_def demo_defs done_world_def Status_defs) blast
  from a b show ?thesis by blast
qed

section \<open>StartSaga\<close>

text \<open>
  C4, amended. On the MemoryStorage and the MemoryPubSub, for every name, list of step names
  and data map, \<^verbatim>\<open>StartSaga\<close> returns a new saga and a nil error. The saga's ID is the
  next value of the UUID generator, its status is Pending, and its steps are one Step for
  each step name, in order, each with the next value of the generator as ID, the name,
  status Pending and an empty data map. The storage holds the saga under its ID and (the
  generated IDs being distinct) each step under its ID. When the list of step names is
  not empty, exactly one \<^verbatim>\<open>step_execute\<close> message with the ID of step 0 is then
  published on \<^verbatim>\<open>saga_events\<close>; when it is empty, nothing is published. On any
  storage and pub/sub, \<^verbatim>\<open>StartSaga\<close> returns an error if and only if
  \<^verbatim>\<open>SaveSaga\<close> returned one, and then the state is the one \<^verbatim>\<open>SaveSaga\<close> left:
  \<^verbatim>\<open>Publish\<close> is not called.
\<close>

theorem StartSaga_saves_then_publishes:
  assumes "storage orch = MemoryStorage rs" and "pubsub orch = MemoryPubSub"
  shows "(\<exists>w' sg. StartSaga orch name stepNames data w = Done (Inr (length (saga_heap w))) w' \<and>
            load_saga w' (length (saga_heap w)) = Some sg \<and>
            saga_ID sg = uuid_src w (uuid_calls w) \<and> saga_Name sg = name \<and>
            saga_Status sg = StatusPending \<and> saga_Data sg = data \<and>
            map strip_step (saga_Steps sg) =
              fresh_steps (saga_ID sg) (uuid_src w) (Suc (uuid_calls w)) stepNames \<and>
            m_sagas w' (saga_ID sg) = Some (length (saga_heap w)) \<and>
            (distinct (map step_ID (saga_Steps sg)) \<longrightarrow>
               (\<forall>i < length stepNames.
                  m_steps w' (step_ID (saga_Steps sg ! i)) = Some (InSaga (length (saga_heap w)) i))) \<and>
            published w' = published w @
              (if stepNames = [] then []
               else [(''saga_events'',
                      \<lparr> msg_Type = ''step_execute'', msg_SagaID = saga_ID sg,
                        msg_StepID = step_ID (saga_Steps sg ! 0), msg_Data = data \<rparr>)])) \<and>
         (\<forall>orch'. (\<exists>e w'. StartSaga orch' name stepNames data w = Done (Inl e) w') \<longleftrightarrow>
            (\<exists>e w'. SaveSaga (storage orch') (fst (saga_to_save name stepNames data w))
                      (snd (saga_to_save name stepNames data w)) = Done (Some e) w')) \<and>
         (\<forall>orch' e w'. StartSaga orch' name stepNames data w = Done (Inl e) w' \<longrightarrow>
            (\<exists>e0. SaveSaga (storage orch') (fst (saga_to_save name stepNames data w))
                      (snd (saga_to_save name stepNames data w)) = Done (Some e0) w'))"
proof -
  let ?a = "length (saga_heap w)"
  from StartSaga_MemoryStorage [OF assms, of name stepNames data w]
  obtain w' sg where r: "StartSaga orch name stepNames data w = Done (Inr ?a) w'"
    and sg: "load_saga w' ?a = Some sg"
    and st: "strip_saga sg = \<lparr> saga_ID = uuid_src w (uuid_calls w), saga_Name = name,
                saga_Status = StatusPending,
                saga_Steps = fresh_steps (uuid_src w (uuid_calls w)) (uuid_src w) (Suc (uuid_calls w)) stepNames,
                saga_Data = data, saga_Error = [], saga_CreatedAt = 0, saga_UpdatedAt = 0 \<rparr>"
    and ms: "m_sagas w' = (m_sagas w)(uuid_src w (uuid_calls w) \<mapsto> ?a)"
    and mp: "m_steps w' = register_ids ?a 0
                    (map (uuid_src w) [Suc (uuid_calls w) ..< Suc (uuid_calls w) + length stepNames])
                    (m_steps w)"
    and pb: "published w' = published w @
       (if stepNames = [] then []
        else [(''saga_events'',
               \<lparr> msg_Type = ''step_execute'', msg_SagaID = uuid_src w (uuid_calls w),
                 msg_StepID = uuid_src w (Suc (uuid_calls w)), msg_Data = data \<rparr>)])"
    by (elim exE conjE)
  have f: "saga_ID (strip_saga sg) = uuid_src w (uuid_calls w)" "saga_Name (strip_saga sg) = name"
    "saga_Status (strip_saga sg) = StatusPending" "saga_Data (strip_saga sg) = data"
    "saga_Steps (strip_saga sg) =
       fresh_steps (uuid_src w (uuid_calls w)) (uuid_src w) (Suc (uuid_calls w)) stepNames"
    unfolding st by simp_all
  have ids: "map step_ID (saga_Steps sg) =
      map (uuid_src w) [Suc (uuid_calls w) ..< Suc (uuid_calls w) + length stepNames]"
  proof -
    have "map step_ID (saga_Steps sg) = map step_ID (saga_Steps (strip_saga sg))"
      by (simp add: comp_def)
    also have "\<dots> = map (uuid_src w) [Suc (uuid_calls w) ..< Suc (uuid_calls w) + length stepNames]"
      unfolding f(5) by (simp add: step_ID_fresh_steps)
    finally show ?thesis .
  qed
  have len: "length (saga_Steps sg) = length stepNames"
  proof -
    have "length (saga_Steps sg) = length (saga_Steps (strip_saga sg))" by simp
    also have "\<dots> = length stepNames" unfolding f(5) by simp
    finally show ?thesis .
  qed
  have reg: "m_steps w' (step_ID (saga_Steps sg ! i)) = Some (InSaga ?a i)"
    if d: "distinct (map step_ID (saga_Steps sg))" and i: "i < length stepNames" for i
  proof -
    have "step_ID (saga_Steps sg ! i) = map step_ID (saga_Steps sg) ! i"
      using i len by simp
    moreover have "register_ids ?a 0 (map step_ID (saga_Steps sg)) (m_steps w)
        (map step_ID (saga_Steps sg) ! i) = Some (InSaga ?a (0 + i))"
      using d i len by (intro register_ids_nth) simp_all
    ultimately show ?thesis by (simp add: mp ids)
  qed
  have i0: "stepNames \<noteq> [] \<Longrightarrow> step_ID (saga_Steps sg ! 0) = uuid_src w (Suc (uuid_calls w))"
  proof -
    assume n: "stepNames \<noteq> []"
    then have "step_ID (saga_Steps sg ! 0) = map step_ID (saga_Steps sg) ! 0"
      using len by simp
    also have "\<dots> = uuid_src w (Suc (uuid_calls w))"
      unfolding ids using n by (cases stepNames) (simp_all add: upt_rec)
    finally show ?thesis .
  qed
  have first: "\<exists>w' sg. StartSaga orch name stepNames data w = Done (Inr ?a) w' \<and>
            load_saga w' ?a = Some sg \<and>
            saga_ID sg = uuid_src w (uuid_calls w) \<and> saga_Name sg = name \<and>
            saga_Status sg = StatusPending \<and> saga_Data sg = data \<and>
            map strip_step (saga_Steps sg) =
              fresh_steps (saga_ID sg) (uuid_src w) (Suc (uuid_calls w)) stepNames \<and>
            m_sagas w' (saga_ID sg) = Some ?a \<and>
            (distinct (map step_ID (saga_Steps sg)) \<longrightarrow>
               (\<forall>i < length stepNames.
                  m_steps w' (step_ID (saga_Steps sg ! i)) = Some (InSaga ?a i))) \<and>
            published w' = published w @
              (if stepNames = [] then []
               else [(''saga_events'',
                      \<lparr> msg_Type = ''step_execute'', msg_SagaID = saga_ID sg,
                        msg_StepID = step_ID (saga_Steps sg ! 0), msg_Data = data \<rparr>)])"
    using r sg f reg i0 by (intro exI [of _ w'] exI [of _ sg]) (simp add: ms pb)
  have gen: "StartSaga orch' name stepNames data w = Done (Inl e) w'' \<longleftrightarrow>
      (\<exists>e0. e = ''failed to save saga: '' @ e0 \<and>
         SaveSaga (storage orch') (fst (saga_to_save name stepNames data w))
           (snd (saga_to_save name stepNames data w)) = Done (Some e0) w'')" for orch' e w''
  proof (cases "SaveSaga (storage orch') (fst (saga_to_save name stepNames data w))
           (snd (saga_to_save name stepNames data w))")
    case (Panicked w6)
    then show ?thesis by (simp add: StartSaga_unfold split_beta)
  next
    case (Done err w6)
    show ?thesis
    proof (cases err)
      case (Some e0)
      with Done show ?thesis by (auto simp add: StartSaga_unfold split_beta)
    next
      case None
      with Done show ?thesis
        by (simp add: StartSaga_unfold split_beta and_then_def split: option.splits run.splits)
    qed
  qed
  have second: "\<forall>orch'. (\<exists>e w'. StartSaga orch' name stepNames data w = Done (Inl e) w') \<longleftrightarrow>
            (\<exists>e w'. SaveSaga (storage orch') (fst (saga_to_save name stepNames data w))
                      (snd (saga_to_save name stepNames data w)) = Done (Some e) w')"
    unfolding gen by blast
  have third: "\<forall>orch' e w'. StartSaga orch' name stepNames data w = Done (Inl e) w' \<longrightarrow>
            (\<exists>e0. SaveSaga (storage orch') (fst (saga_to_save name stepNames data w))
                      (snd (saga_to_save name stepNames data w)) = Done (Some e0) w')"
    unfolding gen by blast
  show ?thesis
    by (rule conjI [OF first conjI [OF second third]])
qed

theorem StartSaga_saves_then_publishes_witness:
  "(\<exists>w' sg. StartSaga demo_orch ''order2'' [''a'', ''b''] None demo_world = Done (Inr 1) w' \<and>
      load_saga w' 1 = Some sg \<and> saga_ID sg = ''u'' \<and>
      map step_ID (saga_Steps sg) = [''uu'', ''uuu''] \<and>
      map step_Name (saga_Steps sg) = [''a'', ''b''] \<and>
      m_sagas w' ''u'' = Some 1 \<and>
      m_steps w' ''uu'' = Some (InSaga 1 0) \<and> m_steps w' ''uuu'' = Some (InSaga 1 1) \<and>
      published w' = [(''saga_events'', \<lparr> msg_Type = ''step_execute'', msg_SagaID = ''u'',
                                         msg_StepID = ''uu'', msg_Data = None \<rparr>)]) \<and>
   (\<exists>e w'. StartSaga broken_orch ''order2'' [''a'', ''b''] None demo_world = Done (Inl e) w')"
proof -
  note t = StartSaga_saves_then_publishes [OF demo_storage(1) demo_storage(3),
      of "''order2''" "[''a'', ''b'']" None demo_world]
  from t [THEN conjunct1] obtain w' sg where all:
    "StartSaga demo_orch ''order2'' [''a'', ''b''] None demo_world =
        Done (Inr (length (saga_heap demo_world))) w' \<and>
     load_saga w' (length (saga_heap demo_world)) = Some sg \<and>
     saga_ID sg = uuid_src demo_world (uuid_calls demo_world) \<and> saga_Name sg = ''order2'' \<and>
     saga_Status sg = StatusPending \<and> saga_Data sg = None \<and>
     map strip_step (saga_Steps sg) =
       fresh_steps (saga_ID sg) (uuid_src demo_world) (Suc (uuid_calls demo_world)) [''a'', ''b''] \<and>
     m_sagas w' (saga_ID sg) = Some (length (saga_heap demo_world)) \<and>
     (distinct (map step_ID (saga_Steps sg)) \<longrightarrow>
        (\<forall>i < length [''a'', ''b''].
           m_steps w' (step_ID (saga_Steps sg ! i)) = Some (InSaga (length (saga_heap demo_world)) i))) \<and>
     published w' = published demo_world @
       (if [''a'', ''b''] = [] then []
        else [(''saga_events'',
               \<lparr> msg_Type = ''step_execute'', msg_SagaID = saga_ID sg,
                 msg_StepID = step_ID (saga_Steps sg ! 0), msg_Data = None \<rparr>)])"
    by (elim exE)
  have r: "StartSaga demo_orch ''order2'' [''a'', ''b''] None demo_world = Done (Inr 1) w'"
    and sg: "load_saga w' 1 = Some sg" and sid: "saga_ID sg = ''u''"
    using all by (auto simp add: demo_world_sel)
  have st: "map strip_step (saga_Steps sg) =
        [fresh_step ''u'' ''uu'' ''a'', fresh_step ''u'' ''uuu'' ''b'']"
    and ms: "m_sagas w' ''u'' = Some 1"
    and mp: "distinct (map step_ID (saga_Steps sg)) \<longrightarrow>
               (\<forall>i < 2. m_steps w' (step_ID (saga_Steps sg ! i)) = Some (InSaga 1 i))"
    and pb: "published w' = [(''saga_events'', \<lparr> msg_Type = ''step_execute'', msg_SagaID = ''u'',
               msg_StepID = step_ID (saga_Steps sg ! 0), msg_Data = None \<rparr>)]"
    using all by (auto simp add: demo_world_sel numeral_2_eq_2)
  have "map step_ID (map strip_step (saga_Steps sg)) = [''uu'', ''uuu'']"
    and "map step_Name (map strip_step (saga_Steps sg)) = [''a'', ''b'']"
    unfolding st by (simp_all add: fresh_step_def)
  then have ids: "map step_ID (saga_Steps sg) = [''uu'', ''uuu'']"
    and names: "map step_Name (saga_Steps sg) = [''a'', ''b'']"
    by (simp_all add: comp_def)
  have len: "length (saga_Steps sg) = 2"
    using ids by (metis length_map length_Cons list.size(3) numeral_2_eq_2)
  have n: "step_ID (saga_Steps sg ! 0) = ''uu''" "step_ID (saga_Steps sg ! 1) = ''uuu''"
    using ids len by (metis nth_map nth_Cons_0 zero_less_numeral,
        metis nth_map nth_Cons_0 nth_Cons_Suc One_nat_def one_less_numeral_iff semiring_norm(76))
  have d: "distinct (map step_ID (saga_Steps sg))" unfolding ids by simp
  from mp d have "m_steps w' ''uu'' = Some (InSaga 1 0)" "m_steps w' ''uuu'' = Some (InSaga 1 1)"
    using n by (metis zero_less_numeral, metis one_less_numeral_iff semiring_norm(76))
  with r sg sid ids names ms pb n
  have first: "\<exists>w' sg. StartSaga demo_orch ''order2'' [''a'', ''b''] None demo_world = Done (Inr 1) w' \<and>
      load_saga w' 1 = Some sg \<and> saga_ID sg = ''u'' \<and>
      map step_ID (saga_Steps sg) = [''uu'', ''uuu''] \<and>
      map step_Name (saga_Steps sg) = [''a'', ''b''] \<and>
      m_sagas w' ''u'' = Some 1 \<and>
      m_steps w' ''uu'' = Some (InSaga 1 0) \<and> m_steps w' ''uuu'' = Some (InSaga 1 1) \<and>
      published w' = [(''saga_events'', \<lparr> msg_Type = ''step_execute'', msg_SagaID = ''u'',
                                         msg_StepID = ''uu'', msg_Data = None \<rparr>)]"
    by (intro exI [of _ w'] exI [of _ sg]) simp
  have "\<exists>e w'. SaveSaga (storage broken_orch) (fst (saga_to_save ''order2'' [''a'', ''b''] None demo_world))
      (snd (saga_to_save ''order2'' [''a'', ''b''] None demo_world)) = Done (Some e) w'"
    by (simp add: broken_orch_def broken_storage_def NewOrchestrator_def)
  with t have "\<exists>e w'. StartSaga broken_orch ''order2'' [''a'', ''b''] None demo_world = Done (Inl e) w'"
    by blast
  with first show ?thesis by blast
qed

text \<open>
  C4 as stated fails on an empty list of step names: the saga is saved and returned, and no
  message is published.
\<close>

theorem StartSaga_no_steps_counterexample:
  "returned (StartSaga demo_orch ''order'' [] None demo_world) = Some (Inr 1) \<and>
   published (final (StartSaga demo_orch ''order'' [] None demo_world)) = []"
  using StartSaga_MemoryStorage [OF demo_storage(1) demo_storage(3), of "''order''" "[]" None demo_world]
  by (auto simp add: demo_world_sel)

section \<open>A saga without steps\<close>

text \<open>
  C8, amended. \<^verbatim>\<open>Builder.Execute\<close> with no step added returns the error "saga must have
  at least one step"; it registers no handler, and nothing is saved or published.
  \<^verbatim>\<open>StartSaga\<close> called with an empty list of step names (on the MemoryStorage and the
  MemoryPubSub) does not reject it: it saves a Pending saga without steps, publishes
  nothing, and returns the saga with a nil error.
\<close>

theorem zero_step_saga:
  assumes "storage orch = MemoryStorage rs" and "pubsub orch = MemoryPubSub"
  shows "(\<forall>(b :: 'a Builder) orch' w. b_steps b = [] \<longrightarrow>
            Builder_Execute b orch' w = (orch', Done (Inl ''saga must have at least one step'') w)) \<and>
         (\<exists>w' sg. StartSaga orch name [] data (w :: 'a world) = Done (Inr (length (saga_heap w))) w' \<and>
            load_saga w' (length (saga_heap w)) = Some sg \<and> saga_Steps sg = [] \<and>
            saga_Status sg = StatusPending \<and>
            m_sagas w' (saga_ID sg) = Some (length (saga_heap w)) \<and>
            published w' = published w)"
proof -
  from StartSaga_MemoryStorage [OF assms, of name "[]" data w]
  obtain w' sg where r: "StartSaga orch name [] data w = Done (Inr (length (saga_heap w))) w'"
    and sg: "load_saga w' (length (saga_heap w)) = Some sg"
    and st: "strip_saga sg = \<lparr> saga_ID = uuid_src w (uuid_calls w), saga_Name = name,
                saga_Status = StatusPending, saga_Steps = [],
                saga_Data = data, saga_Error = [], saga_CreatedAt = 0, saga_UpdatedAt = 0 \<rparr>"
    and ms: "m_sagas w' = (m_sagas w)(uuid_src w (uuid_calls w) \<mapsto> length (saga_heap w))"
    and pb: "published w' = published w"
    by auto
  have "saga_ID (strip_saga sg) = uuid_src w (uuid_calls w)"
    "saga_Status (strip_saga sg) = StatusPending" "saga_Steps (strip_saga sg) = []"
    unfolding st by simp_all
  then have "saga_ID sg = uuid_src w (uuid_calls w)" "saga_Status sg = StatusPending"
    "saga_Steps sg = []"
    by simp_all
  with r sg ms pb have "\<exists>w' sg. StartSaga orch name [] data w = Done (Inr (length (saga_heap w))) w' \<and>
            load_saga w' (length (saga_heap w)) = Some sg \<and> saga_Steps sg = [] \<and>
            saga_Status sg = StatusPending \<and>
            m_sagas w' (saga_ID sg) = Some (length (saga_heap w)) \<and>
            published w' = published w"
    by (intro exI [of _ w'] exI [of _ sg]) simp
  then show ?thesis by (simp add: Builder_Execute_def)
qed

theorem zero_step_saga_witness:
  "Builder_Execute (NewBuilder ''order'') demo_orch demo_world =
     (demo_orch, Done (Inl ''saga must have at least one step'') demo_world) \<and>
   (\<exists>w' sg. StartSaga demo_orch ''order'' [] None demo_world = Done (Inr 1) w' \<and>
      load_saga w' 1 = Some sg \<and> saga_Steps sg = [] \<and> published w' = [])"
  using zero_step_saga [OF demo_storage(1) demo_storage(3), of "''order''" None demo_world]
  by (auto simp add: NewBuilder_def demo_world_sel)

text \<open>
  C8 as stated fails for \<^verbatim>\<open>StartSaga\<close>: with no step name it returns a saga and no
  error, and the storage holds the saga.
\<close>

theorem StartSaga_accepts_no_steps_counterexample:
  "returned (StartSaga demo_orch ''empty'' [] (Some Map.empty) demo_world) = Some (Inr 1) \<and>
   m_sagas (final (StartSaga demo_orch ''empty'' [] (Some Map.empty) demo_world)) ''u'' = Some 1"
  using StartSaga_MemoryStorage [OF demo_storage(1) demo_storage(3), of "''empty''" "[]"
      "Some Map.empty" demo_world]
  by (auto simp add: demo_world_sel)

section \<open>CompensateStep\<close>



section \<open>A handler that fails\<close>



section \<open>A recovery tick\<close>



section \<open>The error field of a saga\<close>

text \<open>
  C10. \<open>saga_errors\<close> lists the error field of every saga the process holds, in the order
  of their creation. On the MemoryStorage and the MemoryPubSub, no operation of the
  orchestrator (\<^verbatim>\<open>StartSaga\<close>, \<^verbatim>\<open>Builder.Execute\<close>, \<^verbatim>\<open>ExecuteStep\<close>,
  \<^verbatim>\<open>CompensateStep\<close>, the delivery of a message, a recovery tick) writes the error field
  of a saga: after it the list is the same, or has one more entry, the empty error of the
  saga just created. In particular \<^verbatim>\<open>ExecuteStep\<close> with a failing handler, which marks
  the saga Failed, leaves the saga's error field as it was. Hence in every state reached
  from an empty process by these operations, a saga with status Failed has an empty error
  string.
\<close>

theorem saga_error_never_written:
  "(orch_step w w' \<longrightarrow>
      saga_errors w' = saga_errors w \<or> saga_errors w' = saga_errors w @ [[]]) \<and>
   (reachable w \<longrightarrow>
      (\<forall>a sg. load_saga w a = Some sg \<longrightarrow> saga_Status sg = StatusFailed \<longrightarrow> saga_Error sg = []))"
proof -
  have "saga_Error sg = []" if "reachable w" "load_saga w a = Some sg" for a sg
  proof -
    from that(2) have "saga_Error sg \<in> set (saga_errors w)"
      by (auto simp add: load_saga_def saga_errors_def split: if_splits)
    with reachable_errors [OF that(1)] show ?thesis by auto
  qed
  with orch_step_errors show ?thesis by blast
qed

theorem saga_error_never_written_witness:
  "orch_step started_world failed_world \<and> reachable failed_world \<and>
   (\<exists>sg. load_saga failed_world 0 = Some sg \<and> saga_Status sg = StatusFailed \<and>
         map step_Error (saga_Steps sg) = [''boom''] \<and> saga_Error sg = []) \<and>
   (saga_errors failed_world = saga_errors started_world \<or>
    saga_errors failed_world = saga_errors started_world @ [[]])"
proof -
  have o1: "orch_step empty_world started_world"
    unfolding started_world_def by (rule orch_step.start [OF demo_storage(1) demo_storage(3)])
  have o2: "orch_step started_world failed_world"
    unfolding failed_world_def by (rule orch_step.execute [OF demo_storage(1) demo_storage(3)])
  have "reachable empty_world"
    by (rule reachable.init) (simp_all add: empty_world_def)
  with o1 o2 have r: "reachable failed_world"
    by (blast intro: reachable.step)
  from saga_error_never_written [of started_world failed_world]
    saga_error_never_written [of failed_world] o2 r failed_world_saga
  show ?thesis by auto
qed

end
